theory Spec2Isabelle
  imports Complex_Main "HOL-Library.AList"
begin

section \<open>Numbers: the cells of a pandas column\<close>

text \<open>
  The cells of the frames that \<^verbatim>\<open>broker.py\<close> handles are IEEE doubles: a finite
  number, one of the two infinities, or "not a number". An operation on finite
  doubles gives the exact result rounded to a double, or an infinity on overflow. The
  rounding is not fixed here: every operation takes it as its first argument, a
  function from the exact result to the cell, and what is proved for every such
  function holds for the rounding of the machine. What an operation does with an
  infinity, a NaN or a zero divisor follows IEEE 754 and numpy's \<^verbatim>\<open>float64\<close>: a
  division by zero is an infinity or NaN, never an exception. The sign of zero is not
  modelled.
\<close>

datatype fl = Num real | PInf | NInf | NaN

fun fadd :: "(real \<Rightarrow> fl) \<Rightarrow> fl \<Rightarrow> fl \<Rightarrow> fl" where
  "fadd r NaN y = NaN"
| "fadd r x NaN = NaN"
| "fadd r PInf NInf = NaN"
| "fadd r NInf PInf = NaN"
| "fadd r PInf y = PInf"
| "fadd r x PInf = PInf"
| "fadd r NInf y = NInf"
| "fadd r x NInf = NInf"
| "fadd r (Num a) (Num b) = r (a + b)"

fun fneg :: "fl \<Rightarrow> fl" where
  "fneg (Num a) = Num (- a)"
| "fneg PInf = NInf"
| "fneg NInf = PInf"
| "fneg NaN = NaN"

definition fsub :: "(real \<Rightarrow> fl) \<Rightarrow> fl \<Rightarrow> fl \<Rightarrow> fl" where
  "fsub r x y = fadd r x (fneg y)"

fun fsign :: "fl \<Rightarrow> real" where
  "fsign (Num a) = sgn a"
| "fsign PInf = 1"
| "fsign NInf = - 1"
| "fsign NaN = 0"

fun fmul :: "(real \<Rightarrow> fl) \<Rightarrow> fl \<Rightarrow> fl \<Rightarrow> fl" where
  "fmul r NaN y = NaN"
| "fmul r x NaN = NaN"
| "fmul r (Num a) (Num b) = r (a * b)"
| "fmul r x y =
     (if fsign x * fsign y = 0 then NaN
      else if 0 < fsign x * fsign y then PInf else NInf)"

fun fdiv :: "(real \<Rightarrow> fl) \<Rightarrow> fl \<Rightarrow> fl \<Rightarrow> fl" where
  "fdiv r NaN y = NaN"
| "fdiv r x NaN = NaN"
| "fdiv r (Num a) (Num b) =
     (if b = 0 then (if a = 0 then NaN else if 0 < a then PInf else NInf)
      else r (a / b))"
| "fdiv r (Num a) y = Num 0"
| "fdiv r PInf (Num b) = (if 0 \<le> b then PInf else NInf)"
| "fdiv r NInf (Num b) = (if 0 \<le> b then NInf else PInf)"
| "fdiv r x y = NaN"

fun fsqrt :: "(real \<Rightarrow> fl) \<Rightarrow> fl \<Rightarrow> fl" where
  "fsqrt r (Num a) = (if a < 0 then NaN else r (sqrt a))"
| "fsqrt r PInf = PInf"
| "fsqrt r NInf = NaN"
| "fsqrt r NaN = NaN"

text \<open>The comparison \<^verbatim>\<open>x < y\<close> of two doubles: false as soon as one of them is NaN.\<close>

fun fl_less :: "fl \<Rightarrow> fl \<Rightarrow> bool" where
  "fl_less NaN y = False"
| "fl_less x NaN = False"
| "fl_less (Num a) (Num b) = (a < b)"
| "fl_less x NInf = False"
| "fl_less NInf y = True"
| "fl_less PInf y = False"
| "fl_less x PInf = True"

definition fl_le :: "fl \<Rightarrow> fl \<Rightarrow> bool" where
  "fl_le x y = (fl_less x y \<or> (x = y \<and> x \<noteq> NaN))"

fun is_finite :: "fl \<Rightarrow> bool" where
  "is_finite (Num a) = True"
| "is_finite x = False"

text \<open>
  Python's builtin \<^verbatim>\<open>max\<close> and \<^verbatim>\<open>min\<close> keep the first item and replace it by a later
  one only when that one compares greater (smaller). The source calls them on the days
  of a week after it has read \<^verbatim>\<open>week_series[0]\<close>, so there is always a first item.
\<close>

definition py_max :: "fl \<Rightarrow> fl list \<Rightarrow> fl" where
  "py_max first rest = foldl (\<lambda>m x. if fl_less m x then x else m) first rest"

definition py_min :: "fl \<Rightarrow> fl list \<Rightarrow> fl" where
  "py_min first rest = foldl (\<lambda>m x. if fl_less x m then x else m) first rest"

section \<open>Series statistics of pandas\<close>

text \<open>
  The arithmetic of a run: the rounding of one operation, and the sum of the cells of
  an array, whose order of additions is numpy's. Neither is fixed: the statistics
  below are those of pandas for any choice of the two.
\<close>

record arith =
  rnd :: "real \<Rightarrow> fl"
  asum :: "fl list \<Rightarrow> fl"

text \<open>
  The arithmetic without rounding, adding from the right. A run of the source on
  doubles agrees with it as long as the exact result of every operation is a double.
\<close>

fun exact_sum :: "fl list \<Rightarrow> fl" where
  "exact_sum [] = Num 0"
| "exact_sum (x # xs) = fadd Num x (exact_sum xs)"

definition exact :: arith where
  "exact = \<lparr>rnd = Num, asum = exact_sum\<rparr>"

definition dropna :: "fl list \<Rightarrow> fl list" where
  "dropna xs = filter (\<lambda>x. x \<noteq> NaN) xs"

text \<open>\<^verbatim>\<open>Series.count()\<close>: the number of cells that are not NaN.\<close>

definition count :: "fl list \<Rightarrow> nat" where
  "count xs = length (dropna xs)"

text \<open>\<^verbatim>\<open>Series.mean(skipna=True)\<close>: NaN cells are left out; NaN when nothing is left.\<close>

definition mean :: "arith \<Rightarrow> fl list \<Rightarrow> fl" where
  "mean ar xs =
     (let vs = dropna xs
      in if length vs = 0 then NaN else fdiv (rnd ar) (asum ar vs) (Num (real (length vs))))"

text \<open>
  \<^verbatim>\<open>Series.std(skipna=True)\<close>, with pandas' default \<^verbatim>\<open>ddof=1\<close>: the square root of the
  sum of squared deviations from the mean over \<open>n - 1\<close>; NaN when \<open>n \<le> 1\<close>.
\<close>

definition std :: "arith \<Rightarrow> fl list \<Rightarrow> fl" where
  "std ar xs =
     (let vs = dropna xs; n = length vs
      in if n \<le> 1 then NaN
         else let avg = fdiv (rnd ar) (asum ar vs) (Num (real n));
                  sqr = map (\<lambda>v. fmul (rnd ar) (fsub (rnd ar) avg v) (fsub (rnd ar) avg v)) vs
              in fsqrt (rnd ar) (fdiv (rnd ar) (asum ar sqr) (Num (real (n - 1)))))"

text \<open>
  \<^verbatim>\<open>Series.pct_change()\<close> with its defaults (one period, \<^verbatim>\<open>fill_method='pad'\<close>): NaN
  cells are first filled with the last value before them, then every cell is divided by
  the one before it and 1 is subtracted. The first cell has no predecessor: NaN.
\<close>

fun ffill :: "fl \<Rightarrow> fl list \<Rightarrow> fl list" where
  "ffill prev [] = []"
| "ffill prev (x # xs) = (if x = NaN then prev # ffill prev xs else x # ffill x xs)"

definition pct_change :: "arith \<Rightarrow> fl list \<Rightarrow> fl list" where
  "pct_change ar xs =
     (let d = ffill NaN xs
      in map (\<lambda>(a, b). fsub (rnd ar) (fdiv (rnd ar) a b) (Num 1)) (zip d (NaN # d)))"

section \<open>Frames\<close>

text \<open>
  A frame is the list of its rows, each with its index label. Dates are day numbers
  (the source formats them as \<^verbatim>\<open>%Y-%m-%d\<close> strings, which is one-to-one); day numbers
  divisible by 7 are Mondays, as \<^verbatim>\<open>weekday()\<close> counts from Monday.
\<close>

type_synonym symbol = string
type_synonym date = int
type_synonym 'r frame = "(int \<times> 'r) list"

record bar =
  col_open :: fl
  col_high :: fl
  col_low :: fl
  col_close :: fl
  col_volume :: fl

record wbar = bar +
  col_weekof :: date

record chg =
  chg_close :: fl
  chg_change :: fl

type_synonym portfolio = "symbol \<rightharpoonup> fl"

datatype error =
    IndexError
  | KeyError
  | TypeError
  | FetchError
  | MissingWeekData
  | DataUnavailable symbol nat

text \<open>
  \<open>IndexError\<close>, \<open>KeyError\<close> and \<open>TypeError\<close> are Python's; \<open>FetchError\<close> stands for any exception
  of the data reader. \<open>MissingWeekData\<close> and \<open>DataUnavailable\<close> are the names of the
  specification's taxonomy; no function below returns them.
\<close>

record globals =
  tickers :: "symbol list"
  historical_data :: "(symbol \<times> wbar frame) list"
  portfolio :: portfolio

section \<open>The portfolio table\<close>

text \<open>
  The two lines shared by \<^verbatim>\<open>get_tickers\<close> and \<^verbatim>\<open>sharpe_ratios\<close>:
  \<^verbatim>\<open>missing_tickers = list(tickers - set(portfolio.index))\<close> and
  \<^verbatim>\<open>portfolio = portfolio.reindex(portfolio.index.union(missing_tickers))\<close>.
  \<open>reindex\<close> keeps the cell of a label that the frame has and puts NaN at a new one.
\<close>

definition reindex :: "portfolio \<Rightarrow> (symbol \<Rightarrow> bool) \<Rightarrow> portfolio" where
  "reindex p idx = (\<lambda>s. if idx s then Some (case p s of Some v \<Rightarrow> v | None \<Rightarrow> NaN) else None)"

definition add_missing_tickers :: "symbol list \<Rightarrow> portfolio \<Rightarrow> portfolio" where
  "add_missing_tickers ts p =
     (let missing_tickers = filter (\<lambda>t. p t = None) ts
      in reindex p (\<lambda>s. p s \<noteq> None \<or> s \<in> set missing_tickers))"

definition get_tickers :: "symbol list \<Rightarrow> globals \<Rightarrow> symbol list \<times> globals" where
  "get_tickers ticker_series g =
     (let ts = remdups ticker_series
      in (ts, g\<lparr>tickers := ts, portfolio := add_missing_tickers ts (portfolio g)\<rparr>))"

section \<open>Weekly change and Sharpe ratios\<close>

definition change_frame :: "arith \<Rightarrow> wbar frame \<Rightarrow> chg frame" where
  "change_frame ar fr =
     (let close = map (\<lambda>(l, r). col_close r) fr;
          change = pct_change ar close
      in map (\<lambda>((l, r), c). (l, \<lparr>chg_close = col_close r, chg_change = c\<rparr>)) (zip fr change))"

definition weekly_change ::
  "arith \<Rightarrow> (symbol \<times> wbar frame) list \<Rightarrow> (symbol \<times> chg frame) list" where
  "weekly_change ar weekly_data = map (\<lambda>(ticker, fr). (ticker, change_frame ar fr)) weekly_data"

text \<open>
  \<^verbatim>\<open>weekly_change.loc[total_weeks-weeks : total_weeks, 'change']\<close> is a slice by label
  on an increasing index: both ends belong to it. A frame without rows has an index of
  no integer type, and a slice by integers on it raises TypeError.
\<close>

definition loc_slice :: "int \<Rightarrow> int \<Rightarrow> 'r frame \<Rightarrow> error + 'r frame" where
  "loc_slice lo hi fr =
     (if fr = [] then Inl TypeError else Inr (filter (\<lambda>(l, r). lo \<le> l \<and> l \<le> hi) fr))"

definition window_change :: "chg frame \<Rightarrow> int \<Rightarrow> error + fl list" where
  "window_change wc weeks =
     (let total_weeks = int (count (map (\<lambda>(l, r). chg_close r) wc))
      in case loc_slice (total_weeks - weeks) total_weeks wc of
           Inl e \<Rightarrow> Inl e
         | Inr rows \<Rightarrow> Inr (map (\<lambda>(l, r). chg_change r) rows))"

definition sharpe_single :: "arith \<Rightarrow> chg frame \<Rightarrow> int \<Rightarrow> error + fl" where
  "sharpe_single ar wc weeks =
     (case window_change wc weeks of
        Inl e \<Rightarrow> Inl e
      | Inr change \<Rightarrow>
          (let average = mean ar change;
               deviation = std ar change
           in Inr (fdiv (rnd ar) average deviation)))"

text \<open>The three calls and the average of one turn of the loop of \<^verbatim>\<open>sharpe_ratios\<close>.\<close>

definition sharpe_average :: "arith \<Rightarrow> chg frame \<Rightarrow> error + fl" where
  "sharpe_average ar data =
     (case sharpe_single ar data 52 of
        Inl e \<Rightarrow> Inl e
      | Inr sharpe_52 \<Rightarrow>
          (case sharpe_single ar data 26 of
             Inl e \<Rightarrow> Inl e
           | Inr sharpe_26 \<Rightarrow>
               (case sharpe_single ar data 13 of
                  Inl e \<Rightarrow> Inl e
                | Inr sharpe_13 \<Rightarrow>
                    Inr (fdiv (rnd ar)
                          (fadd (rnd ar) (fadd (rnd ar) sharpe_52 sharpe_26) sharpe_13)
                          (Num 3)))))"

text \<open>
  The loop of \<^verbatim>\<open>sharpe_ratios\<close> over the tickers. \<^verbatim>\<open>change[ticker]\<close> and
  \<^verbatim>\<open>portfolio.loc[ticker]\<close> raise KeyError on a missing key; the assignment through
  \<^verbatim>\<open>portfolio.loc[ticker]['Sharpe (unadjusted)']\<close> writes the cell of the one-column
  table of the source (a single block, whose rows are views). The portfolio is a
  global: when a turn raises, the rows written by the turns before it stay written, so
  the loop gives the portfolio it leaves together with its result or its exception.
\<close>

fun sharpe_loop ::
  "arith \<Rightarrow> (symbol \<times> chg frame) list \<Rightarrow> symbol list \<Rightarrow> (symbol \<times> fl) list \<times> portfolio
     \<Rightarrow> (error + (symbol \<times> fl) list) \<times> portfolio" where
  "sharpe_loop ar change [] (sharpes, p) = (Inr sharpes, p)"
| "sharpe_loop ar change (ticker # ts) (sharpes, p) =
     (case map_of change ticker of
        None \<Rightarrow> (Inl KeyError, p)
      | Some data \<Rightarrow>
          (case sharpe_average ar data of
             Inl e \<Rightarrow> (Inl e, p)
           | Inr average \<Rightarrow>
               (case p ticker of
                  None \<Rightarrow> (Inl KeyError, p)
                | Some old \<Rightarrow>
                    sharpe_loop ar change ts
                      (AList.update ticker average sharpes, p(ticker \<mapsto> average)))))"

definition sharpe_ratios ::
  "arith \<Rightarrow> (symbol \<times> wbar frame) list option \<Rightarrow> globals
     \<Rightarrow> (error + (symbol \<times> fl) list) \<times> globals" where
  "sharpe_ratios ar weekly_data_arg g =
     (let weekly_data = (case weekly_data_arg of None \<Rightarrow> historical_data g | Some wd \<Rightarrow> wd);
          change = weekly_change ar weekly_data;
          ts = remdups (map fst change);
          p = add_missing_tickers ts (portfolio g)
      in case sharpe_loop ar change ts ([], p) of
           (result, p') \<Rightarrow> (result, g\<lparr>portfolio := p'\<rparr>))"

section \<open>Week windows\<close>

text \<open>
  \<^verbatim>\<open>get_historical_data\<close> derives everything from \<^verbatim>\<open>datetime.now()\<close>: the start and
  end of the batched pull and the 52 tuples of five dates, Monday to Friday.
\<close>

definition cur_weekday :: "date \<Rightarrow> int" where
  "cur_weekday today = today mod 7"

definition start_date :: "date \<Rightarrow> date" where
  "start_date today = today - (7 * 52 + cur_weekday today)"

definition end_date :: "date \<Rightarrow> date" where
  "end_date today = today - (3 + cur_weekday today)"

definition week_dates :: "date \<Rightarrow> date list list" where
  "week_dates today =
     map (\<lambda>i. let monday = today - (7 * (52 - int i) + cur_weekday today)
              in map (\<lambda>j. monday + int j) [0..<5])
         [0..<52]"

section \<open>Historical data\<close>

text \<open>
  What \<^verbatim>\<open>get_historical_data\<close> reads from outside: the clock, the cache file (a dict
  from symbol to the rows of its frame, as \<^verbatim>\<open>read_json\<close> returns them) and the data
  reader. The reader is called with a list of symbols (the answer has one column per
  attribute and symbol, and one index of dates for all of them) or with one symbol (one
  column per attribute); \<open>None\<close> is a call that raised.
\<close>

type_synonym day_rows = "date \<rightharpoonup> bar"
type_synonym panel = "date \<rightharpoonup> (symbol \<Rightarrow> bar)"

record world =
  now :: date
  cached_data :: "(symbol \<times> wbar list) list"
  DataReader_list :: "symbol list \<Rightarrow> date \<Rightarrow> date \<Rightarrow> panel option"
  DataReader_str :: "symbol \<Rightarrow> date \<Rightarrow> date \<Rightarrow> day_rows option"

datatype call = PullList "symbol list" date date | PullStr symbol date date

fun names_symbol :: "symbol \<Rightarrow> call \<Rightarrow> bool" where
  "names_symbol t (PullList ts a b) = (t \<in> set ts)"
| "names_symbol t (PullStr s a b) = (t = s)"

text \<open>
  The row that both branches build from \<^verbatim>\<open>week_series\<close>, the rows of the days of the
  week that the pull has: \<^verbatim>\<open>week[0]\<close>, the open of \<^verbatim>\<open>week_series[0]\<close>, the \<^verbatim>\<open>max\<close> of
  the highs, the \<^verbatim>\<open>min\<close> of the lows, the close and the volume of \<^verbatim>\<open>week_series[-1]\<close>.
  Indexing an empty list raises IndexError.
\<close>

definition week_row :: "date list \<Rightarrow> bar list \<Rightarrow> error + wbar" where
  "week_row week week_series =
     (case week of
        [] \<Rightarrow> Inl IndexError
      | monday # days \<Rightarrow>
          (case week_series of
             [] \<Rightarrow> Inl IndexError
           | first # rest \<Rightarrow>
               Inr \<lparr>col_open = col_open first,
                    col_high = py_max (col_high first) (map col_high rest),
                    col_low = py_min (col_low first) (map col_low rest),
                    col_close = col_close (last week_series),
                    col_volume = col_volume (last week_series),
                    col_weekof = monday\<rparr>))"

text \<open>\<^verbatim>\<open>historical_data[ticker].loc[label] = row\<close>\<close>

definition loc_assign ::
  "(symbol \<times> wbar frame) list \<Rightarrow> symbol \<Rightarrow> int \<Rightarrow> wbar
     \<Rightarrow> error + (symbol \<times> wbar frame) list" where
  "loc_assign hdata ticker label row =
     (case map_of hdata ticker of
        None \<Rightarrow> Inl KeyError
      | Some fr \<Rightarrow> Inr (AList.update ticker (AList.update label row fr) hdata))"

text \<open>The branch of the tickers that the cache does not have: one pull for all of them.\<close>

fun fill_missing ::
  "nat \<Rightarrow> date list \<Rightarrow> (symbol \<Rightarrow> bar) list \<Rightarrow> symbol list \<Rightarrow> (symbol \<times> wbar frame) list
     \<Rightarrow> error + (symbol \<times> wbar frame) list" where
  "fill_missing i week week_series [] hdata = Inr hdata"
| "fill_missing i week week_series (ticker # ts) hdata =
     (case week_row week (map (\<lambda>day. day ticker) week_series) of
        Inl e \<Rightarrow> Inl e
      | Inr row \<Rightarrow>
          (case loc_assign hdata ticker (int i + 1) row of
             Inl e \<Rightarrow> Inl e
           | Inr hdata' \<Rightarrow> fill_missing i week week_series ts hdata'))"

fun missing_weeks ::
  "panel \<Rightarrow> symbol list \<Rightarrow> nat \<Rightarrow> date list list \<Rightarrow> (symbol \<times> wbar frame) list
     \<Rightarrow> error + (symbol \<times> wbar frame) list" where
  "missing_weeks data_pull missing_tickers i [] hdata = Inr hdata"
| "missing_weeks data_pull missing_tickers i (week # weeks) hdata =
     (case fill_missing i week (List.map_filter data_pull week) missing_tickers hdata of
        Inl e \<Rightarrow> Inl e
      | Inr hdata' \<Rightarrow> missing_weeks data_pull missing_tickers (Suc i) weeks hdata')"

text \<open>
  The branch of the tickers that the cache has: week by week, the first cached row
  whose \<^verbatim>\<open>weekof\<close> is one of the five dates, or a pull of that one week.
\<close>

fun cached_weeks ::
  "(symbol \<Rightarrow> date \<Rightarrow> date \<Rightarrow> day_rows option) \<Rightarrow> symbol \<Rightarrow> wbar list \<Rightarrow> nat \<Rightarrow> date list list
     \<Rightarrow> call list \<times> (symbol \<times> wbar frame) list
     \<Rightarrow> call list \<times> (error + (symbol \<times> wbar frame) list)" where
  "cached_weeks reader ticker df i [] (calls, hdata) = (calls, Inr hdata)"
| "cached_weeks reader ticker df i (week # weeks) (calls, hdata) =
     (case filter (\<lambda>r. col_weekof r \<in> set week) df of
        [] \<Rightarrow>
          (case week of
             [] \<Rightarrow> (calls, Inl IndexError)
           | monday # days \<Rightarrow>
               (let calls' = calls @ [PullStr ticker monday (last week)]
                in case reader ticker monday (last week) of
                     None \<Rightarrow> (calls', Inl FetchError)
                   | Some data_pull \<Rightarrow>
                       (case week_row week (List.map_filter data_pull week) of
                          Inl e \<Rightarrow> (calls', Inl e)
                        | Inr row \<Rightarrow>
                            (case loc_assign hdata ticker (int i + 1) row of
                               Inl e \<Rightarrow> (calls', Inl e)
                             | Inr hdata' \<Rightarrow>
                                 cached_weeks reader ticker df (Suc i) weeks (calls', hdata')))))
      | cached_row # others \<Rightarrow>
          (case loc_assign hdata ticker (int i + 1) cached_row of
             Inl e \<Rightarrow> (calls, Inl e)
           | Inr hdata' \<Rightarrow> cached_weeks reader ticker df (Suc i) weeks (calls, hdata')))"

fun cached_tickers ::
  "world \<Rightarrow> date list list \<Rightarrow> symbol list \<Rightarrow> call list \<times> (symbol \<times> wbar frame) list
     \<Rightarrow> call list \<times> (error + (symbol \<times> wbar frame) list)" where
  "cached_tickers w weeks [] (calls, hdata) = (calls, Inr hdata)"
| "cached_tickers w weeks (ticker # ts) (calls, hdata) =
     (case map_of (cached_data w) ticker of
        None \<Rightarrow> (calls, Inl KeyError)
      | Some df \<Rightarrow>
          (case cached_weeks (DataReader_str w) ticker df 0 weeks (calls, hdata) of
             (calls', Inl e) \<Rightarrow> (calls', Inl e)
           | (calls', Inr hdata') \<Rightarrow> cached_tickers w weeks ts (calls', hdata')))"

definition pull_missing ::
  "world \<Rightarrow> symbol list \<Rightarrow> (symbol \<times> wbar frame) list
     \<Rightarrow> call list \<times> (error + (symbol \<times> wbar frame) list)" where
  "pull_missing w missing_tickers hdata =
     (if missing_tickers = [] then ([], Inr hdata)
      else
        (let request = PullList missing_tickers (start_date (now w)) (end_date (now w))
         in case DataReader_list w missing_tickers (start_date (now w)) (end_date (now w)) of
              None \<Rightarrow> ([request], Inl FetchError)
            | Some data_pull \<Rightarrow>
                ([request], missing_weeks data_pull missing_tickers 0 (week_dates (now w)) hdata)))"

text \<open>
  The whole function. It returns the calls made to the reader, and either the error
  raised or the dict returned, which is also the new value of the global
  \<^verbatim>\<open>historical_data\<close> and the content written to the cache file. A set of symbols is a
  list without repetition; the order of the list is the order in which a loop visits
  the set.
\<close>

definition get_historical_data ::
  "world \<Rightarrow> symbol list option \<Rightarrow> globals
     \<Rightarrow> call list \<times> (error + (symbol \<times> wbar frame) list \<times> globals)" where
  "get_historical_data w symbols_arg g =
     (let symbols = remdups (case symbols_arg of None \<Rightarrow> tickers g | Some s \<Rightarrow> s);
          hd0 = map (\<lambda>ticker. (ticker, [])) symbols;
          missing_tickers = filter (\<lambda>t. map_of (cached_data w) t = None) symbols
      in case pull_missing w missing_tickers hd0 of
           (calls, Inl e) \<Rightarrow> (calls, Inl e)
         | (calls, Inr hd1) \<Rightarrow>
             (case cached_tickers w (week_dates (now w))
                     (map fst (filter (\<lambda>(t, d). d = []) hd1)) (calls, hd1) of
                (calls', Inl e) \<Rightarrow> (calls', Inl e)
              | (calls', Inr hd2) \<Rightarrow> (calls', Inr (hd2, g\<lparr>historical_data := hd2\<rparr>))))"

text \<open>A ticker's frame in the dict has exactly the rows labelled 1 to \<open>n\<close>, in this order.\<close>

definition has_rows :: "(symbol \<times> wbar frame) list \<Rightarrow> symbol \<Rightarrow> int \<Rightarrow> bool" where
  "has_rows hdata ticker n = (\<exists>fr. map_of hdata ticker = Some fr \<and> map fst fr = [1..n])"

text \<open>The rows that the cached branch takes from the cache when every week has one.\<close>

definition cached_rows :: "wbar list \<Rightarrow> nat \<Rightarrow> date list list \<Rightarrow> wbar frame" where
  "cached_rows df i weeks =
     map (\<lambda>(k, week). (int k + 1, hd (filter (\<lambda>r. col_weekof r \<in> set week) df)))
         (enumerate i weeks)"

text \<open>Every one of the weeks has a cached row whose \<^verbatim>\<open>weekof\<close> is one of its dates.\<close>

definition gapless :: "wbar list \<Rightarrow> date list list \<Rightarrow> bool" where
  "gapless df weeks = list_all (\<lambda>week. list_ex (\<lambda>r. col_weekof r \<in> set week) df) weeks"

section \<open>Example inputs\<close>

definition flat_bar :: "date \<Rightarrow> fl \<Rightarrow> wbar" where
  "flat_bar d c =
     \<lparr>col_open = c, col_high = c, col_low = c, col_close = c, col_volume = Num 0,
      col_weekof = d\<rparr>"

text \<open>The frame with rows 1 to \<open>n\<close> for a list of \<open>n\<close> weekly closes.\<close>

definition series_of_closes :: "real list \<Rightarrow> wbar frame" where
  "series_of_closes cs =
     map (\<lambda>(k, c). (k, flat_bar (7 * k) (Num c))) (zip [1..int (length cs)] cs)"

text \<open>52 closes: 100 for 38 weeks, then 200 for 14 weeks.\<close>

definition step_closes :: "real list" where
  "step_closes = replicate 38 100 @ replicate 14 200"

text \<open>52 closes that double every week: 1, 2, 4, ...\<close>

definition doubling_closes :: "real list" where
  "doubling_closes = map (\<lambda>k. 2 ^ k) [0..<52]"

definition no_globals :: globals where
  "no_globals = \<lparr>tickers = [], historical_data = [], portfolio = Map.empty\<rparr>"

text \<open>A world where nothing is cached and every call of the reader raises.\<close>

definition tiny_world :: world where
  "tiny_world =
     \<lparr>now = 371, cached_data = [], DataReader_list = (\<lambda>ts a b. None),
      DataReader_str = (\<lambda>t a b. None)\<rparr>"

section \<open>The window of the specification\<close>

text \<open>
  The specification's words for the sample of one window, to compare with
  \<open>window_change\<close>: "the last w observations ending at the series tail, observations
  [N-w+1 .. N] where N = total observation count; if N < w, all available observations
  starting from index 1", and "ratio = mean / stddev" of those.
\<close>

definition spec_window_change :: "chg frame \<Rightarrow> int \<Rightarrow> fl list" where
  "spec_window_change wc w =
     (let N = int (count (map (\<lambda>(l, r). chg_close r) wc))
      in map (\<lambda>(l, r). chg_change r) (filter (\<lambda>(l, r). max 1 (N - w + 1) \<le> l \<and> l \<le> N) wc))"

definition spec_ratio :: "arith \<Rightarrow> chg frame \<Rightarrow> int \<Rightarrow> fl" where
  "spec_ratio ar wc w =
     fdiv (rnd ar) (mean ar (spec_window_change wc w)) (std ar (spec_window_change wc w))"

text \<open>
  The specification's words for the change of one entry, "(close[i] - close[i-1]) /
  close[i-1]", and the close that \<^verbatim>\<open>pct_change\<close> divides instead: the last close up to
  the entry that is not NaN (positions count from 0).
\<close>

definition spec_change :: "arith \<Rightarrow> fl list \<Rightarrow> nat \<Rightarrow> fl" where
  "spec_change ar closes i =
     fdiv (rnd ar) (fsub (rnd ar) (closes ! i) (closes ! (i - 1))) (closes ! (i - 1))"

definition last_valid :: "fl list \<Rightarrow> nat \<Rightarrow> fl" where
  "last_valid closes i =
     (case rev (dropna (take (Suc i) closes)) of [] \<Rightarrow> NaN | v # vs \<Rightarrow> v)"

text \<open>The frame of a ticker in the weekly data, without rows when the ticker is not a key.\<close>

definition frame_of :: "(symbol \<times> wbar frame) list \<Rightarrow> symbol \<Rightarrow> wbar frame" where
  "frame_of weekly_data ticker = (case map_of weekly_data ticker of None \<Rightarrow> [] | Some fr \<Rightarrow> fr)"

text \<open>52 closes of 100, except that the close of week 2 is NaN and that of week 3 is 150.\<close>

definition gap_closes :: "fl list" where
  "gap_closes = [Num 100, NaN, Num 150] @ replicate 49 (Num 100)"

definition series_of_cells :: "fl list \<Rightarrow> wbar frame" where
  "series_of_cells cs =
     map (\<lambda>(k, c). (k, flat_bar (7 * k) c)) (zip [1..int (length cs)] cs)"

section \<open>The data fetcher of the specification\<close>

text \<open>
  The source pulls daily bars with \<^verbatim>\<open>pandas_datareader\<close>, which is not part of the
  repository. A market gives the daily bar of a symbol on a date, if there is one.
\<close>

type_synonym market = "symbol \<Rightarrow> date \<rightharpoonup> bar"

definition nan_bar :: bar where
  "nan_bar = \<lparr>col_open = NaN, col_high = NaN, col_low = NaN, col_close = NaN, col_volume = NaN\<rparr>"

text \<open>
  Modelled from the spec: the DataFetcher of section 6 called for one symbol, which the
  repository does not contain. "fetch(symbols, start_date, end_date) returns zero or
  more DailyBars per symbol per date range; absence of a date's bar is a valid
  response." The answer has a row for each date of the range on which the symbol has a
  bar.
\<close>

definition fetch_str :: "market \<Rightarrow> symbol \<Rightarrow> date \<Rightarrow> date \<Rightarrow> day_rows option" where
  "fetch_str m ticker a b = Some (\<lambda>d. if a \<le> d \<and> d \<le> b then m ticker d else None)"

text \<open>
  Modelled from the spec: the DataFetcher of section 6 called for a list of symbols,
  which the repository does not contain. The source reads the answer as one table
  (\<^verbatim>\<open>data_pull.index\<close>, \<^verbatim>\<open>data_pull.loc[day, :]\<close>, then attribute and ticker): it has
  a row for each date of the range on which some symbol of the list has a bar, and in
  that row the cells of a symbol without a bar on that date are NaN.
\<close>

definition fetch_list :: "market \<Rightarrow> symbol list \<Rightarrow> date \<Rightarrow> date \<Rightarrow> panel option" where
  "fetch_list m ts a b =
     Some (\<lambda>d. if a \<le> d \<and> d \<le> b \<and> list_ex (\<lambda>t. m t d \<noteq> None) ts
                then Some (\<lambda>t. case m t d of Some r \<Rightarrow> r | None \<Rightarrow> nan_bar)
                else None)"

definition market_world :: "date \<Rightarrow> (symbol \<times> wbar list) list \<Rightarrow> market \<Rightarrow> world" where
  "market_world today cache m =
     \<lparr>now = today, cached_data = cache, DataReader_list = fetch_list m,
      DataReader_str = fetch_str m\<rparr>"

text \<open>
  Step 3 of the specification's algorithm for a symbol none of whose weeks is cached:
  the loop of the cached branch on a frame without rows, which pulls and aggregates
  every week on its own.
\<close>

definition per_window_series ::
  "(symbol \<Rightarrow> date \<Rightarrow> date \<Rightarrow> day_rows option) \<Rightarrow> symbol \<Rightarrow> date list list
     \<Rightarrow> error + wbar frame" where
  "per_window_series reader ticker weeks =
     (case snd (cached_weeks reader ticker [] 0 weeks ([], [(ticker, [])])) of
        Inl e \<Rightarrow> Inl e
      | Inr hdata \<Rightarrow> (case map_of hdata ticker of None \<Rightarrow> Inl KeyError | Some fr \<Rightarrow> Inr fr))"

text \<open>The frame that \<^verbatim>\<open>get_historical_data\<close> returned for a ticker.\<close>

definition returned_series ::
  "call list \<times> (error + (symbol \<times> wbar frame) list \<times> globals) \<Rightarrow> symbol \<Rightarrow> error + wbar frame" where
  "returned_series result ticker =
     (case snd result of
        Inl e \<Rightarrow> Inl e
      | Inr (hdata, g) \<Rightarrow> (case map_of hdata ticker of None \<Rightarrow> Inl KeyError | Some fr \<Rightarrow> Inr fr))"

definition row_at :: "error + wbar frame \<Rightarrow> int \<Rightarrow> wbar option" where
  "row_at series label = (case series of Inl e \<Rightarrow> None | Inr fr \<Rightarrow> map_of fr label)"

text \<open>The exception that a call of \<^verbatim>\<open>get_historical_data\<close> raised, if it raised one.\<close>

definition raised ::
  "call list \<times> (error + (symbol \<times> wbar frame) list \<times> globals) \<Rightarrow> error option" where
  "raised result = (case snd result of Inl e \<Rightarrow> Some e | Inr r \<Rightarrow> None)"


section \<open>Example markets\<close>

definition day_bar :: "date \<Rightarrow> bar" where
  "day_bar d =
     \<lparr>col_open = Num (of_int d), col_high = Num (of_int d + 2), col_low = Num (of_int d - 2),
      col_close = Num (of_int d + 1), col_volume = Num (100 * of_int d)\<rparr>"

text \<open>
  Two symbols with a bar on every weekday, except that \<open>B\<close> has none on day 7, the
  Monday of the first window when today is day 371.
\<close>

definition two_symbol_market :: market where
  "two_symbol_market =
     (\<lambda>s d. if (s = ''A'' \<or> s = ''B'') \<and> d mod 7 < 5 \<and> \<not> (s = ''B'' \<and> d = 7)
             then Some (day_bar d) else None)"

text \<open>A market without any bar.\<close>

definition closed_market :: market where
  "closed_market = (\<lambda>s d. None)"

text \<open>A cache that knows \<open>ABC\<close> by one row of a week long past.\<close>

definition stale_cache :: "(symbol \<times> wbar list) list" where
  "stale_cache = [(''ABC'', [flat_bar 0 (Num 50)])]"

text \<open>A cache that has a row for the Monday of each of the 52 windows before day 371.\<close>

definition full_cache :: "(symbol \<times> wbar list) list" where
  "full_cache = [(''ABC'', map (\<lambda>i. flat_bar (7 + 7 * int i) (Num (100 + real i))) [0..<52])]"

section \<open>Helper facts: numbers and series\<close>

lemma fdiv_NaN_right [simp]: "fdiv r x NaN = NaN"
  by (cases x) auto

lemma fadd_NaN_right [simp]: "fadd r x NaN = NaN"
  by (cases x) auto

lemma length_ffill: "length (ffill prev xs) = length xs"
  by (induction xs arbitrary: prev) auto

lemma length_pct_change: "length (pct_change ar xs) = length xs"
  by (simp add: pct_change_def Let_def length_ffill)

lemma pct_change_first: "xs \<noteq> [] \<Longrightarrow> pct_change ar xs ! 0 = NaN"
  by (cases xs) (auto simp: pct_change_def Let_def fsub_def)

lemma ffill_nth:
  "i < length xs \<Longrightarrow>
   ffill prev xs ! i = (case rev (dropna (take (Suc i) xs)) of [] \<Rightarrow> prev | v # vs \<Rightarrow> v)"
proof (induction xs arbitrary: prev i)
  case Nil
  then show ?case by simp
next
  case (Cons x xs)
  show ?case
  proof (cases i)
    case 0
    then show ?thesis by (simp add: dropna_def)
  next
    case (Suc j)
    then have j: "j < length xs" using Cons.prems by simp
    let ?ys = "rev (dropna (take (Suc j) xs))"
    show ?thesis
    proof (cases "x = NaN")
      case True
      then show ?thesis using Cons.IH[OF j, of prev] Suc by (simp add: dropna_def)
    next
      case False
      have "rev (dropna (take (Suc i) (x # xs))) = ?ys @ [x]"
        using False Suc by (simp add: dropna_def)
      then show ?thesis using Cons.IH[OF j, of x] Suc False
        by (cases ?ys) simp_all
    qed
  qed
qed

lemma ffill_last_valid: "i < length xs \<Longrightarrow> ffill NaN xs ! i = last_valid xs i"
  by (simp add: ffill_nth last_valid_def)

lemma pct_change_nth:
  assumes "0 < i" and "i < length xs"
  shows "pct_change ar xs ! i =
     fsub (rnd ar) (fdiv (rnd ar) (last_valid xs i) (last_valid xs (i - 1))) (Num 1)"
proof -
  obtain j where j: "i = Suc j" using assms(1) by (cases i) auto
  have "j < length xs" using assms(2) j by simp
  then show ?thesis using assms(2)
    by (simp add: pct_change_def Let_def length_ffill j ffill_last_valid)
qed

lemma last_valid_self: "i < length xs \<Longrightarrow> xs ! i \<noteq> NaN \<Longrightarrow> last_valid xs i = xs ! i"
  by (simp add: last_valid_def take_Suc_conv_app_nth dropna_def)

lemma pct_formula:
  "fsub Num (fdiv Num (Num a) (Num b)) (Num 1) = fdiv Num (fsub Num (Num a) (Num b)) (Num b)"
  by (auto simp: fsub_def diff_divide_distrib)

lemma length_change_frame: "length (change_frame ar fr) = length fr"
  by (simp add: change_frame_def Let_def length_pct_change)

lemma change_frame_nth:
  assumes "i < length fr"
  shows "change_frame ar fr ! i =
    (fst (fr ! i), \<lparr>chg_close = col_close (snd (fr ! i)),
        chg_change = pct_change ar (map (\<lambda>(l, r). col_close r) fr) ! i\<rparr>)"
  using assms by (simp add: change_frame_def Let_def length_pct_change split: prod.splits)

lemma change_frame_empty: "(change_frame ar fr = []) = (fr = [])"
  using length_change_frame[of ar fr] by (metis length_0_conv)

lemma map_of_weekly_change:
  "map_of (weekly_change ar wd) t = map_option (change_frame ar) (map_of wd t)"
  by (induction wd) (auto simp: weekly_change_def)

lemma fst_weekly_change: "map fst (weekly_change ar wd) = map fst wd"
  by (induction wd) (auto simp: weekly_change_def)

section \<open>Weekly change\<close>

lemma gap_series_labels: "map fst (series_of_cells gap_closes) = [1..52]"
  by code_simp

lemma gap_series_closes:
  "map (\<lambda>(l, r). col_close r) (series_of_cells gap_closes) = gap_closes"
  by code_simp

lemma gap_changes:
  "chg_change (snd (change_frame exact (series_of_cells gap_closes) ! 1)) = Num 0
   \<and> chg_change (snd (change_frame exact (series_of_cells gap_closes) ! 2)) = Num (1 / 2)"
  by code_simp

lemma gap_spec: "spec_change exact gap_closes 1 = NaN \<and> spec_change exact gap_closes 2 = NaN"
  by code_simp

lemma gap_last_valid:
  "last_valid gap_closes 0 = Num 100 \<and> last_valid gap_closes 1 = Num 100
   \<and> last_valid gap_closes 2 = Num 150"
  by code_simp

lemma gap_close_2:
  "map (\<lambda>(l, r). col_close r) (series_of_cells gap_closes) ! 1 = NaN"
  by code_simp

text \<open>
  Claim C5 says that the change of every entry after the first is
  \<open>(close[i] - close[i-1]) / close[i-1]\<close>. \<^verbatim>\<open>pct_change\<close> fills a close that is NaN
  with the last close before it. On 52 rows whose closes are 100, NaN, 150, 100, ...
  the change of entry 2 is 100/100 - 1 = 0 and that of entry 3 is 150/100 - 1 = 0.5,
  where the quotient of the claim is NaN for both (positions count from 0, so position
  \<open>i\<close> is the row labelled \<open>i + 1\<close>).
\<close>

theorem weekly_change_pads_missing_close:
  "map fst (series_of_cells gap_closes) = [1..52]
   \<and> map (\<lambda>(l, r). col_close r) (series_of_cells gap_closes) ! 1 = NaN
   \<and> chg_change (snd (change_frame exact (series_of_cells gap_closes) ! 1)) = Num 0
   \<and> spec_change exact gap_closes 1 = NaN
   \<and> chg_change (snd (change_frame exact (series_of_cells gap_closes) ! 2)) = Num (1 / 2)
   \<and> spec_change exact gap_closes 2 = NaN"
  using gap_series_labels gap_changes gap_spec gap_close_2 by simp

text \<open>
  Claim C5 as amended. For a frame with the 52 rows 1 to 52, \<^verbatim>\<open>_weekly_change\<close> gives a
  frame with the same 52 labels and closes, a function of its argument alone. The first
  change is NaN. The change of every later entry is \<open>p[i] / p[i-1] - 1\<close>, each operation
  rounded, where \<open>p[i]\<close> is the last close up to entry \<open>i\<close> that is not NaN; when the
  closes of entries \<open>i\<close> and \<open>i-1\<close> are not NaN it is \<open>close[i] / close[i-1] - 1\<close>, and
  when they are finite and nothing is rounded it is the quotient of the claim.
\<close>

theorem weekly_change_entries:
  assumes "map_of weekly_data ticker = Some fr"
    and "map fst fr = [1..52]"
    and "closes = map (\<lambda>(l, r). col_close r) fr"
  shows "\<exists>cf. map_of (weekly_change ar weekly_data) ticker = Some cf
    \<and> length cf = 52
    \<and> map fst cf = [1..52]
    \<and> chg_change (snd (cf ! 0)) = NaN
    \<and> (\<forall>i. 1 \<le> i \<and> i < 52 \<longrightarrow>
          chg_change (snd (cf ! i)) =
            fsub (rnd ar) (fdiv (rnd ar) (last_valid closes i) (last_valid closes (i - 1))) (Num 1))
    \<and> (\<forall>i. 1 \<le> i \<and> i < 52 \<and> closes ! i \<noteq> NaN \<and> closes ! (i - 1) \<noteq> NaN \<longrightarrow>
          chg_change (snd (cf ! i)) =
            fsub (rnd ar) (fdiv (rnd ar) (closes ! i) (closes ! (i - 1))) (Num 1))
    \<and> (\<forall>i. 1 \<le> i \<and> i < 52 \<and> rnd ar = Num
             \<and> is_finite (closes ! i) \<and> is_finite (closes ! (i - 1)) \<longrightarrow>
          chg_change (snd (cf ! i)) = spec_change ar closes i)
    \<and> (\<forall>i < 52. chg_close (snd (cf ! i)) = closes ! i)"
proof -
  let ?cf = "change_frame ar fr"
  have len: "length fr = 52"
  proof -
    have "length (map fst fr) = length [1..52::int]" using assms(2) by simp
    then show ?thesis by simp
  qed
  have lc: "length closes = 52" using len assms(3) by simp
  have m: "map_of (weekly_change ar weekly_data) ticker = Some ?cf"
    using assms(1) by (simp add: map_of_weekly_change)
  have l: "length ?cf = 52" using len by (simp add: length_change_frame)
  have labels: "map fst ?cf = [1..52]"
  proof -
    have "map fst ?cf = map fst fr"
      by (rule nth_equalityI) (simp_all add: length_change_frame change_frame_nth)
    then show ?thesis using assms(2) by simp
  qed
  have chg: "\<And>i. i < 52 \<Longrightarrow> chg_change (snd (?cf ! i)) = pct_change ar closes ! i"
    using len assms(3) by (simp add: change_frame_nth)
  have first: "chg_change (snd (?cf ! 0)) = NaN"
  proof -
    have "closes \<noteq> []" using lc by auto
    then show ?thesis using chg[of 0] by (simp add: pct_change_first)
  qed
  have pad: "\<forall>i. 1 \<le> i \<and> i < 52 \<longrightarrow>
          chg_change (snd (?cf ! i)) =
            fsub (rnd ar) (fdiv (rnd ar) (last_valid closes i) (last_valid closes (i - 1))) (Num 1)"
  proof (intro allI impI)
    fix i :: nat assume i: "1 \<le> i \<and> i < 52"
    then have "0 < i" and "i < length closes" using lc by simp_all
    from pct_change_nth[OF this, of ar] show "chg_change (snd (?cf ! i)) =
            fsub (rnd ar) (fdiv (rnd ar) (last_valid closes i) (last_valid closes (i - 1))) (Num 1)"
      using chg[of i] i by simp
  qed
  have plain: "\<forall>i. 1 \<le> i \<and> i < 52 \<and> closes ! i \<noteq> NaN \<and> closes ! (i - 1) \<noteq> NaN \<longrightarrow>
          chg_change (snd (?cf ! i)) =
            fsub (rnd ar) (fdiv (rnd ar) (closes ! i) (closes ! (i - 1))) (Num 1)"
  proof (intro allI impI)
    fix i :: nat
    assume i: "1 \<le> i \<and> i < 52 \<and> closes ! i \<noteq> NaN \<and> closes ! (i - 1) \<noteq> NaN"
    have i1: "i - 1 < length closes" and i2: "i < length closes" using i lc by arith+
    have a: "last_valid closes i = closes ! i" using last_valid_self[OF i2] i by simp
    have b: "last_valid closes (i - 1) = closes ! (i - 1)" using last_valid_self[OF i1] i by simp
    show "chg_change (snd (?cf ! i)) =
            fsub (rnd ar) (fdiv (rnd ar) (closes ! i) (closes ! (i - 1))) (Num 1)"
      using pad i a b by simp
  qed
  have spec: "\<forall>i. 1 \<le> i \<and> i < 52 \<and> rnd ar = Num
             \<and> is_finite (closes ! i) \<and> is_finite (closes ! (i - 1)) \<longrightarrow>
          chg_change (snd (?cf ! i)) = spec_change ar closes i"
  proof (intro allI impI)
    fix i :: nat
    assume i: "1 \<le> i \<and> i < 52 \<and> rnd ar = Num
             \<and> is_finite (closes ! i) \<and> is_finite (closes ! (i - 1))"
    obtain a where a: "closes ! i = Num a" using i by (cases "closes ! i") auto
    obtain b where b: "closes ! (i - 1) = Num b" using i by (cases "closes ! (i - 1)") auto
    have "chg_change (snd (?cf ! i)) = fsub Num (fdiv Num (Num a) (Num b)) (Num 1)"
      using plain i a b by simp
    also have "\<dots> = fdiv Num (fsub Num (Num a) (Num b)) (Num b)" by (rule pct_formula)
    finally show "chg_change (snd (?cf ! i)) = spec_change ar closes i"
      using i a b by (simp add: spec_change_def)
  qed
  have closes': "\<forall>i < 52. chg_close (snd (?cf ! i)) = closes ! i"
    using len assms(3) by (simp add: change_frame_nth split_beta)
  show ?thesis using m l labels first pad plain spec closes' by blast
qed

theorem weekly_change_entries_witness:
  "\<exists>cf. map_of (weekly_change exact [(''ABC'', series_of_cells gap_closes)]) ''ABC'' = Some cf
     \<and> length cf = 52 \<and> chg_change (snd (cf ! 0)) = NaN
     \<and> chg_change (snd (cf ! 1)) = Num 0
     \<and> chg_change (snd (cf ! 2)) = Num (1 / 2)"
proof -
  let ?fr = "series_of_cells gap_closes"
  have h1: "map_of [(''ABC'', ?fr)] ''ABC'' = Some ?fr" by simp
  have h3: "gap_closes = map (\<lambda>(l, r). col_close r) ?fr" by (simp add: gap_series_closes)
  from weekly_change_entries[OF h1 gap_series_labels h3, of exact]
  obtain cf where m: "map_of (weekly_change exact [(''ABC'', ?fr)]) ''ABC'' = Some cf"
    and l: "length cf = 52" and f: "chg_change (snd (cf ! 0)) = NaN"
    and r: "\<forall>i. 1 \<le> i \<and> i < 52 \<longrightarrow>
          chg_change (snd (cf ! i)) =
            fsub (rnd exact) (fdiv (rnd exact) (last_valid gap_closes i)
               (last_valid gap_closes (i - 1))) (Num 1)"
    by blast
  have c1: "chg_change (snd (cf ! 1)) = Num 0"
    using r[rule_format, of 1] gap_last_valid by (simp add: exact_def fsub_def)
  have c2: "chg_change (snd (cf ! 2)) = Num (1 / 2)"
    using r[rule_format, of 2] gap_last_valid by (simp add: exact_def fsub_def)
  show ?thesis using m l f c1 c2 by blast
qed

section \<open>Helper facts: the portfolio table\<close>

lemma add_missing_tickers_apply:
  "add_missing_tickers ts p s =
     (case p s of Some v \<Rightarrow> Some v | None \<Rightarrow> if s \<in> set ts then Some NaN else None)"
  by (auto simp: add_missing_tickers_def reindex_def split: option.splits)

lemma window_change_empty: "window_change [] w = Inl TypeError"
  by (simp add: window_change_def loc_slice_def)

lemma window_change_rows: "wc \<noteq> [] \<Longrightarrow> \<exists>c. window_change wc w = Inr c"
  by (simp add: window_change_def loc_slice_def Let_def)

lemma sharpe_single_rows:
  "window_change wc w = Inr c \<Longrightarrow>
   sharpe_single ar wc w = Inr (fdiv (rnd ar) (mean ar c) (std ar c))"
  by (simp add: sharpe_single_def Let_def)

lemma sharpe_average_empty: "sharpe_average ar [] = Inl TypeError"
  by (simp add: sharpe_average_def sharpe_single_def window_change_empty)

lemma sharpe_average_rows: "data \<noteq> [] \<Longrightarrow> \<exists>v. sharpe_average ar data = Inr v"
proof -
  assume d: "data \<noteq> []"
  obtain c1 c2 c3 where "window_change data 52 = Inr c1" "window_change data 26 = Inr c2"
    "window_change data 13 = Inr c3"
    using window_change_rows[OF d] by meson
  then show ?thesis by (simp add: sharpe_average_def sharpe_single_def Let_def)
qed

lemma sharpe_loop_result:
  fixes change :: "(symbol \<times> chg frame) list"
  defines "rows \<equiv> (\<lambda>t. case map_of change t of Some d \<Rightarrow> d \<noteq> [] | None \<Rightarrow> False)"
  assumes "\<forall>t \<in> set ts. map_of change t \<noteq> None \<and> p t \<noteq> None"
  shows "(\<forall>s \<in> set (takeWhile rows ts). \<exists>d v. map_of change s = Some d
             \<and> sharpe_average ar d = Inr v
             \<and> snd (sharpe_loop ar change ts (sharpes, p)) s = Some v)
    \<and> (\<forall>s. s \<notin> set (takeWhile rows ts) \<longrightarrow> snd (sharpe_loop ar change ts (sharpes, p)) s = p s)
    \<and> (takeWhile rows ts = ts \<longrightarrow>
          (\<exists>sh. fst (sharpe_loop ar change ts (sharpes, p)) = Inr sh
             \<and> (\<forall>s \<in> set ts. map_of sh s = snd (sharpe_loop ar change ts (sharpes, p)) s)
             \<and> (\<forall>s. s \<notin> set ts \<longrightarrow> map_of sh s = map_of sharpes s)))
    \<and> (takeWhile rows ts \<noteq> ts \<longrightarrow> fst (sharpe_loop ar change ts (sharpes, p)) = Inl TypeError)"
  using assms(2)
proof (induction ts arbitrary: sharpes p)
  case Nil
  then show ?case by simp
next
  case (Cons t ts)
  obtain d where d: "map_of change t = Some d" using Cons.prems by auto
  obtain old where o: "p t = Some old" using Cons.prems by auto
  show ?case
  proof (cases "d = []")
    case True
    then have nr: "\<not> rows t" using d by (simp add: rows_def)
    have "sharpe_loop ar change (t # ts) (sharpes, p) = (Inl TypeError, p)"
      using d True by (simp add: sharpe_average_empty)
    then show ?thesis using nr by simp
  next
    case False
    then have r: "rows t" using d by (simp add: rows_def)
    obtain v where v: "sharpe_average ar d = Inr v" using sharpe_average_rows[OF False] by blast
    let ?p1 = "p(t \<mapsto> v)"
    let ?s1 = "AList.update t v sharpes"
    let ?L = "sharpe_loop ar change ts (?s1, ?p1)"
    have L: "sharpe_loop ar change (t # ts) (sharpes, p) = ?L" using d v o by simp
    have pre: "\<forall>u \<in> set ts. map_of change u \<noteq> None \<and> ?p1 u \<noteq> None" using Cons.prems by auto
    note IH = Cons.IH[OF pre, of ?s1]
    have a: "\<forall>s \<in> set (takeWhile rows ts). \<exists>d v. map_of change s = Some d
             \<and> sharpe_average ar d = Inr v \<and> snd ?L s = Some v"
      using IH by blast
    have b: "\<forall>s. s \<notin> set (takeWhile rows ts) \<longrightarrow> snd ?L s = ?p1 s" using IH by blast
    have c: "takeWhile rows ts = ts \<longrightarrow>
          (\<exists>sh. fst ?L = Inr sh \<and> (\<forall>s \<in> set ts. map_of sh s = snd ?L s)
             \<and> (\<forall>s. s \<notin> set ts \<longrightarrow> map_of sh s = map_of ?s1 s))"
      using IH by blast
    have e: "takeWhile rows ts \<noteq> ts \<longrightarrow> fst ?L = Inl TypeError" using IH by blast
    have tw: "takeWhile rows (t # ts) = t # takeWhile rows ts" using r by simp
    have pt: "snd ?L t = Some v"
    proof (cases "t \<in> set (takeWhile rows ts)")
      case True
      then obtain d' v' where "map_of change t = Some d'" "sharpe_average ar d' = Inr v'"
        "snd ?L t = Some v'" using a by blast
      then show ?thesis using d v by simp
    next
      case False
      then show ?thesis using b by simp
    qed
    have 1: "\<forall>s \<in> set (takeWhile rows (t # ts)). \<exists>d v. map_of change s = Some d
             \<and> sharpe_average ar d = Inr v \<and> snd ?L s = Some v"
      unfolding tw using a pt d v by auto
    have 2: "\<forall>s. s \<notin> set (takeWhile rows (t # ts)) \<longrightarrow> snd ?L s = p s"
      unfolding tw using b by auto
    have 3: "takeWhile rows (t # ts) = t # ts \<longrightarrow>
          (\<exists>sh. fst ?L = Inr sh \<and> (\<forall>s \<in> set (t # ts). map_of sh s = snd ?L s)
             \<and> (\<forall>s. s \<notin> set (t # ts) \<longrightarrow> map_of sh s = map_of sharpes s))"
    proof
      assume "takeWhile rows (t # ts) = t # ts"
      then have full: "takeWhile rows ts = ts" using tw by simp
      then obtain sh where s1: "fst ?L = Inr sh" and s2: "\<forall>s \<in> set ts. map_of sh s = snd ?L s"
        and s3: "\<forall>s. s \<notin> set ts \<longrightarrow> map_of sh s = map_of ?s1 s" using c by blast
      have "map_of sh t = snd ?L t"
      proof (cases "t \<in> set ts")
        case True
        then show ?thesis using s2 by blast
      next
        case False
        then have "map_of sh t = map_of ?s1 t" using s3 by blast
        then show ?thesis using pt by (simp add: update_conv')
      qed
      moreover have "\<forall>s. s \<notin> set (t # ts) \<longrightarrow> map_of sh s = map_of sharpes s"
        using s3 by (simp add: update_conv')
      ultimately show "\<exists>sh. fst ?L = Inr sh \<and> (\<forall>s \<in> set (t # ts). map_of sh s = snd ?L s)
             \<and> (\<forall>s. s \<notin> set (t # ts) \<longrightarrow> map_of sh s = map_of sharpes s)"
        using s1 s2 by auto
    qed
    have 4: "takeWhile rows (t # ts) \<noteq> t # ts \<longrightarrow> fst ?L = Inl TypeError"
      unfolding tw using e by simp
    show ?thesis unfolding L using 1 2 3 4 by blast
  qed
qed

text \<open>What \<^verbatim>\<open>sharpe_ratios\<close> gives and leaves in the portfolio, for any argument.\<close>

lemma sharpe_ratios_result:
  fixes ar arg g
  defines "wd \<equiv> (case arg of None \<Rightarrow> historical_data g | Some x \<Rightarrow> x)"
  defines "ts \<equiv> remdups (map fst wd)"
  defines "scored \<equiv> takeWhile (\<lambda>t. frame_of wd t \<noteq> []) ts"
  defines "R \<equiv> sharpe_ratios ar arg g"
  shows "(\<forall>t \<in> set scored. \<exists>v. sharpe_average ar (change_frame ar (frame_of wd t)) = Inr v
             \<and> portfolio (snd R) t = Some v)
    \<and> (\<forall>s. s \<notin> set scored \<longrightarrow> portfolio (snd R) s = add_missing_tickers ts (portfolio g) s)
    \<and> tickers (snd R) = tickers g \<and> historical_data (snd R) = historical_data g
    \<and> (scored = ts \<longrightarrow> (\<exists>sh. fst R = Inr sh
            \<and> (\<forall>s \<in> set ts. map_of sh s = portfolio (snd R) s)
            \<and> (\<forall>s. s \<notin> set ts \<longrightarrow> map_of sh s = None)))
    \<and> (scored \<noteq> ts \<longrightarrow> fst R = Inl TypeError)"
proof -
  let ?ch = "weekly_change ar wd"
  let ?p = "add_missing_tickers ts (portfolio g)"
  let ?rows = "\<lambda>t. case map_of ?ch t of Some d \<Rightarrow> d \<noteq> [] | None \<Rightarrow> False"
  let ?L = "sharpe_loop ar ?ch ts ([], ?p)"
  have rows: "?rows = (\<lambda>t. frame_of wd t \<noteq> [])"
    by (rule ext) (simp add: map_of_weekly_change frame_of_def change_frame_empty
        split: option.splits)
  have keys: "\<And>s. (s \<in> set ts) = (map_of wd s \<noteq> None)"
    by (simp add: ts_def map_of_eq_None_iff)
  have pre: "\<forall>t \<in> set ts. map_of ?ch t \<noteq> None \<and> ?p t \<noteq> None"
    using keys by (auto simp: map_of_weekly_change add_missing_tickers_apply split: option.splits)
  note LR = sharpe_loop_result[OF pre, of ar "[]", unfolded rows, folded scored_def]
  have Rfst: "fst R = fst ?L" and Rsnd: "snd R = g\<lparr>portfolio := snd ?L\<rparr>"
    unfolding R_def sharpe_ratios_def Let_def wd_def[symmetric]
    by (simp_all add: fst_weekly_change ts_def split: prod.splits)
  have 1: "\<forall>t \<in> set scored. \<exists>v. sharpe_average ar (change_frame ar (frame_of wd t)) = Inr v
             \<and> portfolio (snd R) t = Some v"
  proof
    fix t assume "t \<in> set scored"
    then obtain d v where d: "map_of ?ch t = Some d" and v: "sharpe_average ar d = Inr v"
      and p: "snd ?L t = Some v" using LR by blast
    have "d = change_frame ar (frame_of wd t)"
      using d by (auto simp: map_of_weekly_change frame_of_def)
    then show "\<exists>v. sharpe_average ar (change_frame ar (frame_of wd t)) = Inr v
             \<and> portfolio (snd R) t = Some v"
      using v p Rsnd by simp
  qed
  have 2: "\<forall>s. s \<notin> set scored \<longrightarrow> portfolio (snd R) s = ?p s"
    using LR Rsnd by simp
  have 3: "tickers (snd R) = tickers g \<and> historical_data (snd R) = historical_data g"
    using Rsnd by simp
  have 4: "scored = ts \<longrightarrow> (\<exists>sh. fst R = Inr sh
            \<and> (\<forall>s \<in> set ts. map_of sh s = portfolio (snd R) s)
            \<and> (\<forall>s. s \<notin> set ts \<longrightarrow> map_of sh s = None))"
    using LR Rfst Rsnd by simp
  have 5: "scored \<noteq> ts \<longrightarrow> fst R = Inl TypeError"
    using LR Rfst by simp
  show ?thesis using 1 2 3 4 5 by blast
qed

section \<open>The registry only grows\<close>

lemma run_nothing:
  "get_historical_data tiny_world (Some []) g = ([], Inr ([], g\<lparr>historical_data := []\<rparr>))"
  by (simp add: get_historical_data_def pull_missing_def)

lemma step_series_rows: "series_of_closes step_closes \<noteq> []"
  by (simp add: series_of_closes_def step_closes_def upto.simps)

text \<open>
  Claim C9. The two lines that add tickers to the portfolio keep every row that was
  there with its value, give each new ticker a row holding NaN, and add no other row:
  the key set becomes the union. This is so in \<^verbatim>\<open>get_tickers\<close>, for the lines on their
  own, and in \<^verbatim>\<open>sharpe_ratios\<close>: whether that call returns or raises, the keys of the
  portfolio it leaves are the old keys and the tickers of the weekly data, and every
  row but those of the tickers it has scored is as the two lines made it.
  \<^verbatim>\<open>get_historical_data\<close> leaves the table as it was.
\<close>

theorem registry_only_grows:
  "(\<forall>s. portfolio (snd (get_tickers sheet g)) s =
          (case portfolio g s of
             Some v \<Rightarrow> Some v
           | None \<Rightarrow> if s \<in> set sheet then Some NaN else None))
   \<and> (\<forall>s. add_missing_tickers ts p s =
          (case p s of Some v \<Rightarrow> Some v | None \<Rightarrow> if s \<in> set ts then Some NaN else None))
   \<and> dom (portfolio (snd (get_tickers sheet g))) = dom (portfolio g) \<union> set sheet
   \<and> dom (add_missing_tickers ts p) = dom p \<union> set ts
   \<and> dom (portfolio (snd (sharpe_ratios ar arg g)))
        = dom (portfolio g) \<union> fst ` set (case arg of None \<Rightarrow> historical_data g | Some x \<Rightarrow> x)
   \<and> (\<forall>s. s \<notin> set (takeWhile
                  (\<lambda>t. frame_of (case arg of None \<Rightarrow> historical_data g | Some x \<Rightarrow> x) t \<noteq> [])
                  (remdups (map fst (case arg of None \<Rightarrow> historical_data g | Some x \<Rightarrow> x))))
        \<longrightarrow> portfolio (snd (sharpe_ratios ar arg g)) s =
          (case portfolio g s of
             Some v \<Rightarrow> Some v
           | None \<Rightarrow> if s \<in> fst ` set (case arg of None \<Rightarrow> historical_data g | Some x \<Rightarrow> x)
                     then Some NaN else None))
   \<and> (\<forall>calls hdata g'. get_historical_data w symbols g = (calls, Inr (hdata, g'))
          \<longrightarrow> portfolio g' = portfolio g)"
proof -
  let ?wd = "case arg of None \<Rightarrow> historical_data g | Some x \<Rightarrow> x"
  let ?ks = "remdups (map fst ?wd)"
  let ?scored = "takeWhile (\<lambda>t. frame_of ?wd t \<noteq> []) ?ks"
  let ?R = "sharpe_ratios ar arg g"
  have a: "\<forall>s. portfolio (snd (get_tickers sheet g)) s =
          (case portfolio g s of
             Some v \<Rightarrow> Some v
           | None \<Rightarrow> if s \<in> set sheet then Some NaN else None)"
    by (simp add: get_tickers_def Let_def add_missing_tickers_apply)
  have b: "\<forall>s. add_missing_tickers ts p s =
          (case p s of Some v \<Rightarrow> Some v | None \<Rightarrow> if s \<in> set ts then Some NaN else None)"
    by (simp add: add_missing_tickers_apply)
  have c: "dom (portfolio (snd (get_tickers sheet g))) = dom (portfolio g) \<union> set sheet"
    using a by (auto simp: dom_def split: option.splits if_splits)
  have d: "dom (add_missing_tickers ts p) = dom p \<union> set ts"
    using b by (auto simp: dom_def split: option.splits if_splits)
  note SR = sharpe_ratios_result[where ar = ar and arg = arg and g = g]
  have s1: "\<forall>t \<in> set ?scored. \<exists>v. portfolio (snd ?R) t = Some v" using SR by blast
  have s2: "\<forall>s. s \<notin> set ?scored \<longrightarrow> portfolio (snd ?R) s = add_missing_tickers ?ks (portfolio g) s"
    using SR by blast
  have sub: "set ?scored \<subseteq> fst ` set ?wd"
    using set_takeWhileD by fastforce
  have f: "\<forall>s. s \<notin> set ?scored \<longrightarrow> portfolio (snd ?R) s =
          (case portfolio g s of
             Some v \<Rightarrow> Some v
           | None \<Rightarrow> if s \<in> fst ` set ?wd then Some NaN else None)"
    using s2 by (simp add: add_missing_tickers_apply)
  have e: "dom (portfolio (snd ?R)) = dom (portfolio g) \<union> fst ` set ?wd"
  proof (rule set_eqI)
    fix s
    show "(s \<in> dom (portfolio (snd ?R))) = (s \<in> dom (portfolio g) \<union> fst ` set ?wd)"
    proof (cases "s \<in> set ?scored")
      case True
      then show ?thesis using s1 sub by auto
    next
      case False
      then show ?thesis using f by (auto simp: dom_def split: option.splits if_splits)
    qed
  qed
  have h: "\<forall>calls hdata g'. get_historical_data w symbols g = (calls, Inr (hdata, g'))
          \<longrightarrow> portfolio g' = portfolio g"
    by (auto simp: get_historical_data_def Let_def split: prod.splits sum.splits)
  show ?thesis using a b c d e f h by blast
qed

theorem registry_only_grows_witness:
  "portfolio (snd (get_tickers [''NEW'', ''OLD''] (no_globals\<lparr>portfolio := [''OLD'' \<mapsto> Num 2]\<rparr>))) ''OLD''
      = Some (Num 2)
   \<and> portfolio (snd (get_tickers [''NEW'', ''OLD''] (no_globals\<lparr>portfolio := [''OLD'' \<mapsto> Num 2]\<rparr>))) ''NEW''
      = Some NaN
   \<and> portfolio (snd (sharpe_ratios exact (Some [(''XYZ'', [])])
         (no_globals\<lparr>portfolio := [''OLD'' \<mapsto> Num 2]\<rparr>))) ''XYZ'' = Some NaN
   \<and> portfolio (snd (sharpe_ratios exact (Some [(''XYZ'', [])])
         (no_globals\<lparr>portfolio := [''OLD'' \<mapsto> Num 2]\<rparr>))) ''OLD'' = Some (Num 2)
   \<and> portfolio (no_globals\<lparr>portfolio := [''OLD'' \<mapsto> Num 2], historical_data := []\<rparr>)
      = portfolio (no_globals\<lparr>portfolio := [''OLD'' \<mapsto> Num 2]\<rparr>)"
  using registry_only_grows[where sheet = "[''NEW'', ''OLD'']"
      and g = "no_globals\<lparr>portfolio := [''OLD'' \<mapsto> Num 2]\<rparr>"
      and ts = "[]" and p = Map.empty and ar = exact and arg = "Some [(''XYZ'', [])]"
      and w = tiny_world and symbols = "Some []"]
    run_nothing[of "no_globals\<lparr>portfolio := [''OLD'' \<mapsto> Num 2]\<rparr>"]
  by (simp add: no_globals_def frame_of_def)

section \<open>The upsert of sharpe_ratios\<close>

text \<open>
  Claim C10. \<^verbatim>\<open>sharpe_ratios\<close> visits the tickers of the weekly data in turn and stops
  at the first whose frame has no rows, where \<^verbatim>\<open>_sharpe_single\<close> raises TypeError. For
  every ticker before that one, that is every ticker for which a score is computed,
  the portfolio holds that score in the ticker's row, whether the row was there before
  or not. Every other row is as the two lines that add tickers left it, and the rows of
  symbols outside the weekly data and the other globals are what they were. When every
  frame has rows the call returns the dict of the scores, which are the rows of the
  portfolio; when some frame has none it raises TypeError.
\<close>

theorem sharpe_ratios_upsert:
  assumes "weekly_data = (case arg of None \<Rightarrow> historical_data g | Some x \<Rightarrow> x)"
    and "ts = remdups (map fst weekly_data)"
    and "scored = takeWhile (\<lambda>t. frame_of weekly_data t \<noteq> []) ts"
  shows "(\<forall>t \<in> set scored. \<exists>v. sharpe_average ar (change_frame ar (frame_of weekly_data t)) = Inr v
             \<and> portfolio (snd (sharpe_ratios ar arg g)) t = Some v)
    \<and> (\<forall>s. s \<notin> set scored \<longrightarrow>
          portfolio (snd (sharpe_ratios ar arg g)) s = add_missing_tickers ts (portfolio g) s)
    \<and> (\<forall>s. s \<notin> set ts \<longrightarrow> portfolio (snd (sharpe_ratios ar arg g)) s = portfolio g s)
    \<and> tickers (snd (sharpe_ratios ar arg g)) = tickers g
    \<and> historical_data (snd (sharpe_ratios ar arg g)) = historical_data g
    \<and> ((\<forall>t \<in> set ts. frame_of weekly_data t \<noteq> []) \<longrightarrow>
          scored = ts
          \<and> (\<exists>sharpes. fst (sharpe_ratios ar arg g) = Inr sharpes
                \<and> (\<forall>t \<in> set ts. map_of sharpes t = portfolio (snd (sharpe_ratios ar arg g)) t)
                \<and> (\<forall>s. s \<notin> set ts \<longrightarrow> map_of sharpes s = None)))
    \<and> ((\<exists>t \<in> set ts. frame_of weekly_data t = []) \<longrightarrow>
          fst (sharpe_ratios ar arg g) = Inl TypeError)"
proof -
  note SR = sharpe_ratios_result[where ar = ar and arg = arg and g = g, folded assms(1), folded assms(2), folded assms(3)]
  let ?R = "sharpe_ratios ar arg g"
  have 1: "\<forall>t \<in> set scored. \<exists>v. sharpe_average ar (change_frame ar (frame_of weekly_data t)) = Inr v
             \<and> portfolio (snd ?R) t = Some v" using SR by blast
  have 2: "\<forall>s. s \<notin> set scored \<longrightarrow> portfolio (snd ?R) s = add_missing_tickers ts (portfolio g) s"
    using SR by blast
  have sub: "set scored \<subseteq> set ts" unfolding assms(3) using set_takeWhileD by fastforce
  have 3: "\<forall>s. s \<notin> set ts \<longrightarrow> portfolio (snd ?R) s = portfolio g s"
  proof (intro allI impI)
    fix s assume n: "s \<notin> set ts"
    then have "s \<notin> set scored" using sub by auto
    then have "portfolio (snd ?R) s = add_missing_tickers ts (portfolio g) s" using 2 by blast
    then show "portfolio (snd ?R) s = portfolio g s"
      using n by (cases "portfolio g s") (simp_all add: add_missing_tickers_apply)
  qed
  have 4: "tickers (snd ?R) = tickers g \<and> historical_data (snd ?R) = historical_data g"
    using SR by blast
  have full: "(\<forall>t \<in> set ts. frame_of weekly_data t \<noteq> []) = (scored = ts)"
    unfolding assms(3) by (simp add: takeWhile_eq_all_conv)
  have 5: "(\<forall>t \<in> set ts. frame_of weekly_data t \<noteq> []) \<longrightarrow>
          scored = ts
          \<and> (\<exists>sharpes. fst ?R = Inr sharpes
                \<and> (\<forall>t \<in> set ts. map_of sharpes t = portfolio (snd ?R) t)
                \<and> (\<forall>s. s \<notin> set ts \<longrightarrow> map_of sharpes s = None))"
    using SR full by blast
  have 6: "(\<exists>t \<in> set ts. frame_of weekly_data t = []) \<longrightarrow> fst ?R = Inl TypeError"
    using SR full by blast
  show ?thesis using 1 2 3 4 5 6 by blast
qed

theorem sharpe_ratios_upsert_witness:
  "(\<exists>v. sharpe_average exact (change_frame exact (series_of_closes step_closes)) = Inr v
       \<and> portfolio (snd (sharpe_ratios exact
             (Some [(''ABC'', series_of_closes step_closes), (''XYZ'', [])])
             (no_globals\<lparr>portfolio := [''OLD'' \<mapsto> Num 2]\<rparr>))) ''ABC'' = Some v)
   \<and> portfolio (snd (sharpe_ratios exact
         (Some [(''ABC'', series_of_closes step_closes), (''XYZ'', [])])
         (no_globals\<lparr>portfolio := [''OLD'' \<mapsto> Num 2]\<rparr>))) ''XYZ'' = Some NaN
   \<and> portfolio (snd (sharpe_ratios exact
         (Some [(''ABC'', series_of_closes step_closes), (''XYZ'', [])])
         (no_globals\<lparr>portfolio := [''OLD'' \<mapsto> Num 2]\<rparr>))) ''OLD'' = Some (Num 2)
   \<and> fst (sharpe_ratios exact
         (Some [(''ABC'', series_of_closes step_closes), (''XYZ'', [])])
         (no_globals\<lparr>portfolio := [''OLD'' \<mapsto> Num 2]\<rparr>)) = Inl TypeError
   \<and> (\<exists>sharpes. fst (sharpe_ratios exact (Some [(''ABC'', series_of_closes step_closes)])
           (no_globals\<lparr>portfolio := [''OLD'' \<mapsto> Num 2]\<rparr>)) = Inr sharpes
         \<and> map_of sharpes ''ABC'' = portfolio (snd (sharpe_ratios exact
               (Some [(''ABC'', series_of_closes step_closes)])
               (no_globals\<lparr>portfolio := [''OLD'' \<mapsto> Num 2]\<rparr>))) ''ABC'')"
proof -
  let ?fr = "series_of_closes step_closes"
  let ?wd = "[(''ABC'', ?fr), (''XYZ'', [])]"
  let ?wd1 = "[(''ABC'', ?fr)]"
  let ?g = "no_globals\<lparr>portfolio := [''OLD'' \<mapsto> Num 2]\<rparr>"
  let ?R = "sharpe_ratios exact (Some ?wd) ?g"
  let ?R1 = "sharpe_ratios exact (Some ?wd1) ?g"
  have h1: "?wd = (case Some ?wd of None \<Rightarrow> historical_data ?g | Some x \<Rightarrow> x)" by simp
  have h2: "[''ABC'', ''XYZ''] = remdups (map fst ?wd)" by simp
  have h3: "[''ABC''] = takeWhile (\<lambda>t. frame_of ?wd t \<noteq> []) [''ABC'', ''XYZ'']"
    using step_series_rows by (simp add: frame_of_def)
  note U = sharpe_ratios_upsert[OF h1 h2 h3, of exact]
  have a: "\<exists>v. sharpe_average exact (change_frame exact ?fr) = Inr v
       \<and> portfolio (snd ?R) ''ABC'' = Some v"
    using U[THEN conjunct1] by (simp add: frame_of_def)
  have b: "portfolio (snd ?R) ''XYZ'' = Some NaN"
    using U[THEN conjunct2, THEN conjunct1, rule_format, of "''XYZ''"]
    by (simp add: add_missing_tickers_apply no_globals_def)
  have c: "portfolio (snd ?R) ''OLD'' = Some (Num 2)"
    using U[THEN conjunct2, THEN conjunct2, THEN conjunct1, rule_format, of "''OLD''"]
    by (simp add: no_globals_def)
  have d: "fst ?R = Inl TypeError"
    using U by (simp add: frame_of_def)
  have k1: "?wd1 = (case Some ?wd1 of None \<Rightarrow> historical_data ?g | Some x \<Rightarrow> x)" by simp
  have k2: "[''ABC''] = remdups (map fst ?wd1)" by simp
  have k3: "[''ABC''] = takeWhile (\<lambda>t. frame_of ?wd1 t \<noteq> []) [''ABC'']"
    using step_series_rows by (simp add: frame_of_def)
  note V = sharpe_ratios_upsert[OF k1 k2 k3, of exact]
  have e: "\<exists>sharpes. fst ?R1 = Inr sharpes
         \<and> map_of sharpes ''ABC'' = portfolio (snd ?R1) ''ABC''"
  proof -
    have "\<forall>t \<in> set [''ABC'']. frame_of ?wd1 t \<noteq> []"
      using step_series_rows by (simp add: frame_of_def)
    then obtain sharpes where "fst ?R1 = Inr sharpes"
      and "\<forall>t \<in> set [''ABC'']. map_of sharpes t = portfolio (snd ?R1) t"
      using V by blast
    then show ?thesis by simp
  qed
  show ?thesis using a b c d e by blast
qed

section \<open>Helper facts: windows and ratios\<close>

lemma dropna_replicate_Num [simp]: "dropna (replicate n (Num c)) = replicate n (Num c)"
  by (simp add: dropna_def)

lemma dropna_Cons_NaN [simp]: "dropna (NaN # xs) = dropna xs"
  by (simp add: dropna_def)

lemma dropna_Cons_Num [simp]: "dropna (Num a # xs) = Num a # dropna xs"
  by (simp add: dropna_def)

lemma exact_sum_replicate: "exact_sum (replicate n (Num c)) = Num (real n * c)"
  by (induction n) (simp_all add: algebra_simps)

lemma mean_replicate: "0 < n \<Longrightarrow> mean exact (replicate n (Num c)) = Num c"
  by (simp add: mean_def exact_def exact_sum_replicate)

lemma std_replicate: "2 \<le> n \<Longrightarrow> std exact (replicate n (Num c)) = Num 0"
proof -
  assume n: "2 \<le> n"
  have avg: "fdiv Num (exact_sum (replicate n (Num c))) (Num (real n)) = Num c"
    using n by (simp add: exact_sum_replicate)
  have z: "fmul Num (fsub Num (Num c) (Num c)) (fsub Num (Num c) (Num c)) = Num 0"
    by (simp add: fsub_def)
  show ?thesis using n
    by (simp add: std_def exact_def Let_def avg z exact_sum_replicate)
qed

lemma mean_Cons_NaN: "mean ar (NaN # xs) = mean ar xs"
  by (simp add: mean_def)

lemma std_Cons_NaN: "std ar (NaN # xs) = std ar xs"
  by (simp add: std_def)

lemma step_window_13:
  "window_change (change_frame exact (series_of_closes step_closes)) 13
     = Inr (Num 1 # replicate 13 (Num 0))"
  by code_simp

lemma step_spec_window_13:
  "spec_window_change (change_frame exact (series_of_closes step_closes)) 13
     = replicate 13 (Num 0)"
  by code_simp

lemma mean_step: "mean exact (Num 1 # replicate 13 (Num 0)) = Num (1 / 14)"
  by (simp add: mean_def exact_def exact_sum_replicate)

lemma std_step: "std exact (Num 1 # replicate 13 (Num 0)) = Num (sqrt (1 / 14))"
  by (simp add: std_def exact_def Let_def fsub_def exact_sum_replicate)

lemma not_finite_fadd_left: "\<not> is_finite x \<Longrightarrow> \<not> is_finite (fadd r x y)"
  by (cases x; cases y) auto

lemma not_finite_fadd_right: "\<not> is_finite y \<Longrightarrow> \<not> is_finite (fadd r x y)"
  by (cases x; cases y) auto

lemma not_finite_fdiv_3: "\<not> is_finite x \<Longrightarrow> \<not> is_finite (fdiv r x (Num 3))"
  by (cases x) auto

lemma fdiv_zero_not_finite: "\<not> is_finite (fdiv r x (Num 0))"
  by (cases x) auto

lemma std_few: "count xs < 2 \<Longrightarrow> std ar xs = NaN"
  by (simp add: std_def count_def Let_def)

lemma sharpe_average_value:
  assumes "sharpe_single ar data 52 = Inr s52" and "sharpe_single ar data 26 = Inr s26"
    and "sharpe_single ar data 13 = Inr s13"
  shows "sharpe_average ar data
     = Inr (fdiv (rnd ar) (fadd (rnd ar) (fadd (rnd ar) s52 s26) s13) (Num 3))"
  using assms by (simp add: sharpe_average_def)

lemma sharpe_single_total:
  "window_change data w = Inr c \<Longrightarrow> \<exists>s. sharpe_single ar data w' = Inr s"
proof -
  assume "window_change data w = Inr c"
  then have "data \<noteq> []" using window_change_empty by auto
  from window_change_rows[OF this, of w'] show ?thesis
    by (auto simp: sharpe_single_def Let_def)
qed

lemma doubling_window_52:
  "window_change (change_frame exact (series_of_closes doubling_closes)) 52
     = Inr (NaN # replicate 51 (Num 1))"
  by code_simp

lemma doubling_window_26:
  "window_change (change_frame exact (series_of_closes doubling_closes)) 26
     = Inr (replicate 27 (Num 1))"
  by code_simp

lemma doubling_window_13:
  "window_change (change_frame exact (series_of_closes doubling_closes)) 13
     = Inr (replicate 14 (Num 1))"
  by code_simp

lemma short_window_13:
  "window_change (change_frame exact (series_of_closes [100, 200])) 13 = Inr [NaN, Num 1]"
  by code_simp

section \<open>The sample of one window\<close>

text \<open>
  Claim C1 says that the ratio of window \<open>w\<close> is taken over the last \<open>w\<close> observations,
  rows \<open>N-w+1\<close> to \<open>N\<close>. The slice \<^verbatim>\<open>.loc[total_weeks-weeks : total_weeks]\<close> has both of
  its ends, so \<^verbatim>\<open>_sharpe_single\<close> takes rows \<open>N-w\<close> to \<open>N\<close>, one more. On 52 weekly
  closes of 100 (38 weeks) then 200 (14 weeks), the 13-week window of the code holds 14
  changes, the jump of week 39 among them, and its ratio is a number (given here
  without rounding); the last 13 changes are all 0 and have no ratio.
\<close>

theorem sharpe_single_one_row_too_many:
  "window_change (change_frame exact (series_of_closes step_closes)) 13
     = Inr (Num 1 # replicate 13 (Num 0))
   \<and> (case window_change (change_frame exact (series_of_closes step_closes)) 13 of
         Inl e \<Rightarrow> 0 | Inr change \<Rightarrow> length change) = 14
   \<and> sharpe_single exact (change_frame exact (series_of_closes step_closes)) 13
       = Inr (Num (1 / 14 / sqrt (1 / 14)))
   \<and> spec_window_change (change_frame exact (series_of_closes step_closes)) 13
       = replicate 13 (Num 0)
   \<and> spec_ratio exact (change_frame exact (series_of_closes step_closes)) 13 = NaN
   \<and> sharpe_single exact (change_frame exact (series_of_closes step_closes)) 13
       \<noteq> Inr (spec_ratio exact (change_frame exact (series_of_closes step_closes)) 13)"
proof -
  let ?wc = "change_frame exact (series_of_closes step_closes)"
  have a: "sharpe_single exact ?wc 13 = Inr (Num (1 / 14 / sqrt (1 / 14)))"
    by (simp add: sharpe_single_def step_window_13 mean_step std_step) (simp add: exact_def)
  have b: "spec_ratio exact ?wc 13 = NaN"
    by (simp add: spec_ratio_def step_spec_window_13 mean_replicate std_replicate)
  show ?thesis using a b by (simp add: step_window_13 step_spec_window_13)
qed

section \<open>Degenerate samples\<close>

text \<open>
  Claim C2 says that a window whose sample has zero deviation makes the overall score
  undefined, not infinite. On closes that double every week every change is 1, and
  every operation on them is exact in doubles: the deviation of each window is 0, its
  mean is 1, the division gives \<open>+\<infinity>\<close>, and so does the average of the three ratios.
\<close>

theorem zero_deviation_gives_infinity:
  "window_change (change_frame exact (series_of_closes doubling_closes)) 13
     = Inr (replicate 14 (Num 1))
   \<and> std exact (replicate 14 (Num 1)) = Num 0
   \<and> sharpe_single exact (change_frame exact (series_of_closes doubling_closes)) 13 = Inr PInf
   \<and> sharpe_average exact (change_frame exact (series_of_closes doubling_closes)) = Inr PInf
   \<and> sharpe_average exact (change_frame exact (series_of_closes doubling_closes)) \<noteq> Inr NaN"
proof -
  let ?d = "change_frame exact (series_of_closes doubling_closes)"
  have s52: "sharpe_single exact ?d 52 = Inr PInf"
    by (simp add: sharpe_single_def doubling_window_52 mean_Cons_NaN std_Cons_NaN
        mean_replicate std_replicate)
  have s26: "sharpe_single exact ?d 26 = Inr PInf"
    by (simp add: sharpe_single_def doubling_window_26 mean_replicate std_replicate)
  have s13: "sharpe_single exact ?d 13 = Inr PInf"
    by (simp add: sharpe_single_def doubling_window_13 mean_replicate std_replicate)
  have "sharpe_average exact ?d = Inr PInf"
    by (simp add: sharpe_average_value[OF s52 s26 s13])
  then show ?thesis using s13 by (simp add: doubling_window_13 std_replicate)
qed

text \<open>
  Claim C2 as amended, for every rounding and every order of summation. When the sample
  that \<^verbatim>\<open>_sharpe_single\<close> selects for one of the windows 52, 26, 13 has fewer than two
  observations, or the deviation computed from it is exactly 0, the overall score is
  never a finite number. It is NaN when the sample has fewer than two observations or
  the computed mean is 0; with a computed deviation of 0 and a mean other than 0 the
  ratio of that window is the infinity of the mean's sign. (Changes that are equal as
  real numbers need not have a computed deviation of 0.)
\<close>

theorem degenerate_window_never_finite:
  assumes "w \<in> {52, 26, 13}"
    and "window_change data w = Inr c"
    and "count c < 2 \<or> std ar c = Num 0"
  shows "\<exists>s. sharpe_average ar data = Inr s
    \<and> \<not> is_finite s
    \<and> (count c < 2 \<or> mean ar c = Num 0 \<longrightarrow> s = NaN)
    \<and> (\<forall>a. std ar c = Num 0 \<and> mean ar c = Num a \<and> a \<noteq> 0
          \<longrightarrow> sharpe_single ar data w = Inr (if 0 < a then PInf else NInf))"
proof -
  obtain s52 s26 s13 where s: "sharpe_single ar data 52 = Inr s52"
    "sharpe_single ar data 26 = Inr s26" "sharpe_single ar data 13 = Inr s13"
    using sharpe_single_total[OF assms(2)] by meson
  let ?sw = "fdiv (rnd ar) (mean ar c) (std ar c)"
  let ?avg = "fdiv (rnd ar) (fadd (rnd ar) (fadd (rnd ar) s52 s26) s13) (Num 3)"
  have r: "sharpe_single ar data w = Inr ?sw" using sharpe_single_rows[OF assms(2)] .
  have one: "s52 = ?sw \<or> s26 = ?sw \<or> s13 = ?sw" using assms(1) r s by auto
  have A: "sharpe_average ar data = Inr ?avg" by (rule sharpe_average_value[OF s])
  have nf: "\<not> is_finite ?sw"
  proof (cases "count c < 2")
    case True
    then show ?thesis by (simp add: std_few)
  next
    case False
    then have "std ar c = Num 0" using assms(3) by simp
    then show ?thesis by (simp add: fdiv_zero_not_finite)
  qed
  have 1: "\<not> is_finite ?avg"
    using one nf not_finite_fadd_left not_finite_fadd_right not_finite_fdiv_3 by metis
  have 2: "count c < 2 \<or> mean ar c = Num 0 \<longrightarrow> ?avg = NaN"
  proof
    assume h: "count c < 2 \<or> mean ar c = Num 0"
    have "?sw = NaN"
    proof (cases "count c < 2")
      case True
      then show ?thesis by (simp add: std_few)
    next
      case False
      then have "std ar c = Num 0" and "mean ar c = Num 0" using assms(3) h by simp_all
      then show ?thesis by simp
    qed
    then have "s52 = NaN \<or> s26 = NaN \<or> s13 = NaN" using one by auto
    then show "?avg = NaN" by auto
  qed
  have 3: "\<forall>a. std ar c = Num 0 \<and> mean ar c = Num a \<and> a \<noteq> 0
          \<longrightarrow> sharpe_single ar data w = Inr (if 0 < a then PInf else NInf)"
    by (auto simp: r)
  show ?thesis using A 1 2 3 by blast
qed

theorem degenerate_window_never_finite_witness:
  "(\<exists>s. sharpe_average exact (change_frame exact (series_of_closes doubling_closes)) = Inr s
        \<and> \<not> is_finite s)
   \<and> sharpe_single exact (change_frame exact (series_of_closes doubling_closes)) 13 = Inr PInf
   \<and> sharpe_average exact (change_frame exact (series_of_closes [100, 200])) = Inr NaN"
proof -
  let ?d = "change_frame exact (series_of_closes doubling_closes)"
  let ?s = "change_frame exact (series_of_closes [100, 200])"
  have w: "(13::int) \<in> {52, 26, 13}" by simp
  have sd: "std exact (replicate 14 (Num 1)) = Num 0" by (simp add: std_replicate)
  have md: "mean exact (replicate 14 (Num 1)) = Num 1" by (simp add: mean_replicate)
  have hd: "count (replicate 14 (Num 1)) < 2 \<or> std exact (replicate 14 (Num 1)) = Num 0"
    using sd by simp
  have cs: "count [NaN, Num 1] < 2" by (simp add: count_def dropna_def)
  have hs: "count [NaN, Num 1] < 2 \<or> std exact [NaN, Num 1] = Num 0" using cs by simp
  from degenerate_window_never_finite[OF w doubling_window_13 hd] sd md
  have 1: "\<exists>s. sharpe_average exact ?d = Inr s \<and> \<not> is_finite s"
    and 2: "sharpe_single exact ?d 13 = Inr PInf"
    by auto
  from degenerate_window_never_finite[OF w short_window_13 hs] cs
  have 3: "sharpe_average exact ?s = Inr NaN" by auto
  show ?thesis using 1 2 3 by simp
qed

section \<open>Helper facts: the loops of get_historical_data\<close>

lemma update_fresh: "k \<notin> fst ` set al \<Longrightarrow> AList.update k v al = al @ [(k, v)]"
  by (induction al) auto

lemma labels_extend:
  assumes "map fst fr = [1..int i]"
  shows "AList.update (int i + 1) row fr = fr @ [(int i + 1, row)]"
    and "map fst (AList.update (int i + 1) row fr) = [1..int i + 1]"
proof -
  have "int i + 1 \<notin> set (map fst fr)" using assms by simp
  then have f: "int i + 1 \<notin> fst ` set fr" by simp
  show u: "AList.update (int i + 1) row fr = fr @ [(int i + 1, row)]"
    using f by (rule update_fresh)
  have "[1..int i + 1] = [1..int i] @ [int i + 1]"
    using upto_rec2[of 1 "int i + 1"] by simp
  then show "map fst (AList.update (int i + 1) row fr) = [1..int i + 1]"
    using u assms by simp
qed

lemma has_rows_key: "has_rows hdata t n \<Longrightarrow> t \<in> set (map fst hdata)"
  unfolding has_rows_def by (auto dest: map_of_SomeD intro: rev_image_eqI)

lemma loc_assign_rows:
  assumes "has_rows hdata t (int i)"
  shows "\<exists>h. loc_assign hdata t (int i + 1) row = Inr h
     \<and> map fst h = map fst hdata
     \<and> has_rows h t (int i + 1)
     \<and> (\<forall>s. s \<noteq> t \<longrightarrow> map_of h s = map_of hdata s)
     \<and> (\<forall>fr. map_of hdata t = Some fr \<longrightarrow> map_of h t = Some (fr @ [(int i + 1, row)]))"
proof -
  obtain fr where fr: "map_of hdata t = Some fr" and l: "map fst fr = [1..int i]"
    using assms unfolding has_rows_def by blast
  let ?h = "AList.update t (AList.update (int i + 1) row fr) hdata"
  have 1: "loc_assign hdata t (int i + 1) row = Inr ?h"
    by (simp add: loc_assign_def fr)
  have 2: "map fst ?h = map fst hdata"
    using has_rows_key[OF assms] by (simp add: update_keys)
  have 3: "has_rows ?h t (int i + 1)"
    unfolding has_rows_def using labels_extend(2)[OF l] by (simp add: update_conv')
  have 4: "\<forall>s. s \<noteq> t \<longrightarrow> map_of ?h s = map_of hdata s"
    by (simp add: update_conv')
  have 5: "\<forall>fr'. map_of hdata t = Some fr' \<longrightarrow> map_of ?h t = Some (fr' @ [(int i + 1, row)])"
    using fr labels_extend(1)[OF l] by (simp add: update_conv')
  show ?thesis using 1 2 3 4 5 by blast
qed

lemma week_row_error: "week_row week ws = Inl e \<Longrightarrow> e = IndexError"
  by (auto simp: week_row_def split: list.splits)

lemma week_row_empty: "week_row week [] = Inl IndexError"
  by (simp add: week_row_def split: list.splits)

lemma has_rows_other:
  "\<forall>s. s \<noteq> t \<longrightarrow> map_of h s = map_of hdata s \<Longrightarrow> u \<noteq> t \<Longrightarrow> has_rows h u n = has_rows hdata u n"
  by (simp add: has_rows_def)

lemma fill_missing_inv:
  assumes "distinct ts" and "\<forall>t \<in> set ts. has_rows hdata t (int i)"
  shows "case fill_missing i week ws ts hdata of
           Inl e \<Rightarrow> e = IndexError
         | Inr h \<Rightarrow> map fst h = map fst hdata
                    \<and> (\<forall>t \<in> set ts. has_rows h t (int i + 1))
                    \<and> (\<forall>s. s \<notin> set ts \<longrightarrow> map_of h s = map_of hdata s)"
  using assms
proof (induction ts arbitrary: hdata)
  case Nil
  then show ?case by simp
next
  case (Cons t ts)
  show ?case
  proof (cases "week_row week (map (\<lambda>day. day t) ws)")
    case (Inl e)
    then show ?thesis using week_row_error[OF Inl] by simp
  next
    case (Inr row)
    have ht: "has_rows hdata t (int i)" using Cons.prems by simp
    from loc_assign_rows[OF ht, of row] obtain h1 where
      a: "loc_assign hdata t (int i + 1) row = Inr h1"
      and k: "map fst h1 = map fst hdata"
      and r: "has_rows h1 t (int i + 1)"
      and o: "\<forall>s. s \<noteq> t \<longrightarrow> map_of h1 s = map_of hdata s"
      by blast
    have tn: "t \<notin> set ts" and d: "distinct ts" using Cons.prems by simp_all
    have pre: "\<forall>u \<in> set ts. has_rows h1 u (int i)"
    proof
      fix u assume u: "u \<in> set ts"
      then have "u \<noteq> t" using tn by auto
      then show "has_rows h1 u (int i)" using has_rows_other[OF o] Cons.prems u by simp
    qed
    have IH: "case fill_missing i week ws ts h1 of
           Inl e \<Rightarrow> e = IndexError
         | Inr h \<Rightarrow> map fst h = map fst h1
                    \<and> (\<forall>t \<in> set ts. has_rows h t (int i + 1))
                    \<and> (\<forall>s. s \<notin> set ts \<longrightarrow> map_of h s = map_of h1 s)"
      by (rule Cons.IH[OF d pre])
    show ?thesis
    proof (cases "fill_missing i week ws ts h1")
      case (Inl e)
      then show ?thesis using IH Inr a by simp
    next
      case (Inr h)
      have h1: "map fst h = map fst h1" and h2: "\<forall>t \<in> set ts. has_rows h t (int i + 1)"
        and h3: "\<forall>s. s \<notin> set ts \<longrightarrow> map_of h s = map_of h1 s"
        using IH Inr by simp_all
      have "map_of h t = map_of h1 t" using h3 tn by simp
      then have rt: "has_rows h t (int i + 1)" using r by (simp add: has_rows_def)
      have "\<forall>s. s \<notin> set (t # ts) \<longrightarrow> map_of h s = map_of hdata s"
        using h3 o by simp
      then show ?thesis using Inr \<open>week_row week (map (\<lambda>day. day t) ws) = Inr row\<close> a h1 k h2 rt
        by simp
    qed
  qed
qed

lemma missing_weeks_inv:
  assumes "distinct ts" and "\<forall>t \<in> set ts. has_rows hdata t (int i)"
  shows "case missing_weeks dp ts i weeks hdata of
           Inl e \<Rightarrow> e = IndexError
         | Inr h \<Rightarrow> map fst h = map fst hdata
                    \<and> (\<forall>t \<in> set ts. has_rows h t (int i + int (length weeks)))
                    \<and> (\<forall>s. s \<notin> set ts \<longrightarrow> map_of h s = map_of hdata s)"
  using assms
proof (induction weeks arbitrary: i hdata)
  case Nil
  then show ?case by simp
next
  case (Cons week weeks)
  have F: "case fill_missing i week (List.map_filter dp week) ts hdata of
           Inl e \<Rightarrow> e = IndexError
         | Inr h \<Rightarrow> map fst h = map fst hdata
                    \<and> (\<forall>t \<in> set ts. has_rows h t (int i + 1))
                    \<and> (\<forall>s. s \<notin> set ts \<longrightarrow> map_of h s = map_of hdata s)"
    by (rule fill_missing_inv[OF Cons.prems])
  show ?case
  proof (cases "fill_missing i week (List.map_filter dp week) ts hdata")
    case (Inl e)
    then show ?thesis using F by simp
  next
    case (Inr h1)
    have k: "map fst h1 = map fst hdata" and r: "\<forall>t \<in> set ts. has_rows h1 t (int (Suc i))"
      and o: "\<forall>s. s \<notin> set ts \<longrightarrow> map_of h1 s = map_of hdata s"
      using F Inr by (simp_all add: add.commute)
    have IH: "case missing_weeks dp ts (Suc i) weeks h1 of
           Inl e \<Rightarrow> e = IndexError
         | Inr h \<Rightarrow> map fst h = map fst h1
                    \<and> (\<forall>t \<in> set ts. has_rows h t (int (Suc i) + int (length weeks)))
                    \<and> (\<forall>s. s \<notin> set ts \<longrightarrow> map_of h s = map_of h1 s)"
      by (rule Cons.IH[OF Cons.prems(1) r])
    show ?thesis
    proof (cases "missing_weeks dp ts (Suc i) weeks h1")
      case (Inl e)
      then show ?thesis using IH Inr by simp
    next
      case (Inr h)
      have e: "int (Suc i) + int (length weeks) = int i + int (length (week # weeks))" by simp
      show ?thesis using IH Inr \<open>fill_missing i week (List.map_filter dp week) ts hdata = Inr h1\<close> k o
        unfolding e by simp
    qed
  qed
qed

lemma cached_weeks_inv:
  assumes "has_rows hdata t (int i)"
  shows "(\<exists>new. fst (cached_weeks rd t df i weeks (calls, hdata)) = calls @ new
            \<and> (\<forall>c \<in> set new. \<exists>a b. c = PullStr t a b))
    \<and> (case snd (cached_weeks rd t df i weeks (calls, hdata)) of
          Inl e \<Rightarrow> e = IndexError \<or> e = FetchError
        | Inr h \<Rightarrow> map fst h = map fst hdata
                    \<and> has_rows h t (int i + int (length weeks))
                    \<and> (\<forall>s. s \<noteq> t \<longrightarrow> map_of h s = map_of hdata s))"
  using assms
proof (induction weeks arbitrary: i calls hdata)
  case Nil
  then show ?case by simp
next
  case (Cons week weeks)
  let ?R = "cached_weeks rd t df i (week # weeks) (calls, hdata)"
  have step: "\<And>row cs. \<exists>h1. loc_assign hdata t (int i + 1) row = Inr h1
       \<and> (\<exists>new. fst (cached_weeks rd t df (Suc i) weeks (cs, h1)) = cs @ new
            \<and> (\<forall>c \<in> set new. \<exists>a b. c = PullStr t a b))
       \<and> (case snd (cached_weeks rd t df (Suc i) weeks (cs, h1)) of
          Inl e \<Rightarrow> e = IndexError \<or> e = FetchError
        | Inr h \<Rightarrow> map fst h = map fst hdata
                    \<and> has_rows h t (int i + int (length (week # weeks)))
                    \<and> (\<forall>s. s \<noteq> t \<longrightarrow> map_of h s = map_of hdata s))"
  proof -
    fix row cs
    from loc_assign_rows[OF Cons.prems, of row] obtain h1 where
      a: "loc_assign hdata t (int i + 1) row = Inr h1"
      and k: "map fst h1 = map fst hdata"
      and r: "has_rows h1 t (int (Suc i))"
      and o: "\<forall>s. s \<noteq> t \<longrightarrow> map_of h1 s = map_of hdata s"
      by (auto simp: add.commute)
    have e: "int (Suc i) + int (length weeks) = int i + int (length (week # weeks))" by simp
    from Cons.IH[OF r, of cs] have
      c1: "\<exists>new. fst (cached_weeks rd t df (Suc i) weeks (cs, h1)) = cs @ new
            \<and> (\<forall>c \<in> set new. \<exists>a b. c = PullStr t a b)"
      and c2: "case snd (cached_weeks rd t df (Suc i) weeks (cs, h1)) of
          Inl e \<Rightarrow> e = IndexError \<or> e = FetchError
        | Inr h \<Rightarrow> map fst h = map fst h1
                    \<and> has_rows h t (int (Suc i) + int (length weeks))
                    \<and> (\<forall>s. s \<noteq> t \<longrightarrow> map_of h s = map_of h1 s)"
      by blast+
    have c3: "case snd (cached_weeks rd t df (Suc i) weeks (cs, h1)) of
          Inl e \<Rightarrow> e = IndexError \<or> e = FetchError
        | Inr h \<Rightarrow> map fst h = map fst hdata
                    \<and> has_rows h t (int i + int (length (week # weeks)))
                    \<and> (\<forall>s. s \<noteq> t \<longrightarrow> map_of h s = map_of hdata s)"
      using c2 k o unfolding e by (auto split: sum.splits)
    show "\<exists>h1. loc_assign hdata t (int i + 1) row = Inr h1
       \<and> (\<exists>new. fst (cached_weeks rd t df (Suc i) weeks (cs, h1)) = cs @ new
            \<and> (\<forall>c \<in> set new. \<exists>a b. c = PullStr t a b))
       \<and> (case snd (cached_weeks rd t df (Suc i) weeks (cs, h1)) of
          Inl e \<Rightarrow> e = IndexError \<or> e = FetchError
        | Inr h \<Rightarrow> map fst h = map fst hdata
                    \<and> has_rows h t (int i + int (length (week # weeks)))
                    \<and> (\<forall>s. s \<noteq> t \<longrightarrow> map_of h s = map_of hdata s))"
      using a c1 c3 by blast
  qed
  show ?case
  proof (cases "filter (\<lambda>r. col_weekof r \<in> set week) df")
    case (Cons cached_row others)
    from step[of cached_row calls] obtain h1 where
      a: "loc_assign hdata t (int i + 1) cached_row = Inr h1"
      and c1: "\<exists>new. fst (cached_weeks rd t df (Suc i) weeks (calls, h1)) = calls @ new
            \<and> (\<forall>c \<in> set new. \<exists>a b. c = PullStr t a b)"
      and c3: "case snd (cached_weeks rd t df (Suc i) weeks (calls, h1)) of
          Inl e \<Rightarrow> e = IndexError \<or> e = FetchError
        | Inr h \<Rightarrow> map fst h = map fst hdata
                    \<and> has_rows h t (int i + int (length (week # weeks)))
                    \<and> (\<forall>s. s \<noteq> t \<longrightarrow> map_of h s = map_of hdata s)"
      by blast
    have "?R = cached_weeks rd t df (Suc i) weeks (calls, h1)"
      using Cons a by simp
    then show ?thesis using c1 c3 by simp
  next
    case Nil
    note gap = Nil
    show ?thesis
    proof (cases week)
      case Nil
      then have "?R = (calls, Inl IndexError)" using gap by simp
      then show ?thesis by simp
    next
      case (Cons monday days)
      let ?cs = "calls @ [PullStr t monday (last week)]"
      show ?thesis
      proof (cases "rd t monday (last week)")
        case None
        then have "?R = (?cs, Inl FetchError)" using gap Cons by (simp add: Let_def)
        then show ?thesis by simp
      next
        case (Some dp)
        show ?thesis
        proof (cases "week_row week (List.map_filter dp week)")
          case (Inl e)
          then have "?R = (?cs, Inl e)" using gap Cons Some by (simp add: Let_def)
          then show ?thesis using week_row_error[OF Inl] by simp
        next
          case (Inr row)
          from step[of row ?cs] obtain h1 where
            a: "loc_assign hdata t (int i + 1) row = Inr h1"
            and c1: "\<exists>new. fst (cached_weeks rd t df (Suc i) weeks (?cs, h1)) = ?cs @ new
                  \<and> (\<forall>c \<in> set new. \<exists>a b. c = PullStr t a b)"
            and c3: "case snd (cached_weeks rd t df (Suc i) weeks (?cs, h1)) of
                Inl e \<Rightarrow> e = IndexError \<or> e = FetchError
              | Inr h \<Rightarrow> map fst h = map fst hdata
                          \<and> has_rows h t (int i + int (length (week # weeks)))
                          \<and> (\<forall>s. s \<noteq> t \<longrightarrow> map_of h s = map_of hdata s)"
            by blast
          have R: "?R = cached_weeks rd t df (Suc i) weeks (?cs, h1)"
            using gap Cons Some Inr a by (simp add: Let_def)
          obtain new where n: "fst (cached_weeks rd t df (Suc i) weeks (?cs, h1)) = ?cs @ new"
            and m: "\<forall>c \<in> set new. \<exists>a b. c = PullStr t a b" using c1 by blast
          have "fst ?R = calls @ (PullStr t monday (last week) # new)" using R n by simp
          moreover have "\<forall>c \<in> set (PullStr t monday (last week) # new). \<exists>a b. c = PullStr t a b"
            using m by simp
          ultimately have "\<exists>new. fst ?R = calls @ new \<and> (\<forall>c \<in> set new. \<exists>a b. c = PullStr t a b)"
            by blast
          then show ?thesis using c3 R by simp
        qed
      qed
    qed
  qed
qed

lemma gapless_Cons:
  "gapless df (week # weeks) = (filter (\<lambda>r. col_weekof r \<in> set week) df \<noteq> [] \<and> gapless df weeks)"
  by (auto simp: gapless_def list_ex_iff filter_empty_conv)

lemma cached_rows_Nil: "cached_rows df i [] = []"
  by (simp add: cached_rows_def)

lemma cached_rows_Cons:
  "cached_rows df i (week # weeks) =
     (int i + 1, hd (filter (\<lambda>r. col_weekof r \<in> set week) df)) # cached_rows df (Suc i) weeks"
  by (simp add: cached_rows_def enumerate_simps)

lemma cached_weeks_gapless:
  assumes "map_of hdata t = Some fr" and "map fst fr = [1..int i]" and "gapless df weeks"
  shows "\<exists>h. cached_weeks rd t df i weeks (calls, hdata) = (calls, Inr h)
     \<and> map fst h = map fst hdata
     \<and> map_of h t = Some (fr @ cached_rows df i weeks)
     \<and> (\<forall>s. s \<noteq> t \<longrightarrow> map_of h s = map_of hdata s)"
  using assms
proof (induction weeks arbitrary: i hdata fr)
  case Nil
  then show ?case by (simp add: cached_rows_Nil)
next
  case (Cons week weeks)
  have ne: "filter (\<lambda>r. col_weekof r \<in> set week) df \<noteq> []" and g: "gapless df weeks"
    using Cons.prems(3) by (simp_all add: gapless_Cons)
  then obtain cached_row others where
    f: "filter (\<lambda>r. col_weekof r \<in> set week) df = cached_row # others"
    by (cases "filter (\<lambda>r. col_weekof r \<in> set week) df") auto
  have hr: "has_rows hdata t (int i)" using Cons.prems(1,2) by (auto simp: has_rows_def)
  from loc_assign_rows[OF hr, of cached_row] obtain h1 where
    a: "loc_assign hdata t (int i + 1) cached_row = Inr h1"
    and k: "map fst h1 = map fst hdata"
    and r: "has_rows h1 t (int i + 1)"
    and o: "\<forall>s. s \<noteq> t \<longrightarrow> map_of h1 s = map_of hdata s"
    and v: "map_of h1 t = Some (fr @ [(int i + 1, cached_row)])"
    using Cons.prems(1) by blast
  have l: "map fst (fr @ [(int i + 1, cached_row)]) = [1..int (Suc i)]"
    using r v by (simp add: has_rows_def add.commute)
  from Cons.IH[OF v l g, of ] obtain h where
    R: "cached_weeks rd t df (Suc i) weeks (calls, h1) = (calls, Inr h)"
    and k2: "map fst h = map fst h1"
    and v2: "map_of h t = Some ((fr @ [(int i + 1, cached_row)]) @ cached_rows df (Suc i) weeks)"
    and o2: "\<forall>s. s \<noteq> t \<longrightarrow> map_of h s = map_of h1 s"
    by blast
  have "cached_weeks rd t df i (week # weeks) (calls, hdata) = (calls, Inr h)"
    using f a R by simp
  moreover have "map_of h t = Some (fr @ cached_rows df i (week # weeks))"
    using v2 f by (simp add: cached_rows_Cons)
  ultimately show ?case using k k2 o o2 by auto
qed

lemma has_rows_zero: "has_rows hdata t 0 = (map_of hdata t = Some [])"
  by (auto simp: has_rows_def)

lemma cached_tickers_inv:
  assumes "distinct ts"
    and "\<forall>t \<in> set ts. has_rows hdata t 0"
    and "\<forall>t \<in> set ts. map_of (cached_data w) t \<noteq> None"
  shows "(\<exists>new. fst (cached_tickers w weeks ts (calls, hdata)) = calls @ new
            \<and> (\<forall>c \<in> set new. \<exists>s a b df. c = PullStr s a b \<and> s \<in> set ts
                   \<and> map_of (cached_data w) s = Some df \<and> \<not> gapless df weeks))
    \<and> (case snd (cached_tickers w weeks ts (calls, hdata)) of
          Inl e \<Rightarrow> e = IndexError \<or> e = FetchError
        | Inr h \<Rightarrow> map fst h = map fst hdata
                    \<and> (\<forall>t \<in> set ts. has_rows h t (int (length weeks)))
                    \<and> (\<forall>t \<in> set ts. \<forall>df. map_of (cached_data w) t = Some df \<and> gapless df weeks
                          \<longrightarrow> map_of h t = Some (cached_rows df 0 weeks))
                    \<and> (\<forall>s. s \<notin> set ts \<longrightarrow> map_of h s = map_of hdata s))"
  using assms
proof (induction ts arbitrary: calls hdata)
  case Nil
  then show ?case by simp
next
  case (Cons t ts)
  obtain df where df: "map_of (cached_data w) t = Some df" using Cons.prems(3) by auto
  have hr: "has_rows hdata t (int 0)" using Cons.prems(2) by simp
  have tn: "t \<notin> set ts" and d: "distinct ts" using Cons.prems(1) by simp_all
  let ?W = "cached_weeks (DataReader_str w) t df 0 weeks (calls, hdata)"
  let ?R = "cached_tickers w weeks (t # ts) (calls, hdata)"
  from cached_weeks_inv[OF hr, of "DataReader_str w" df weeks calls] obtain new1 where
    n1: "fst ?W = calls @ new1" and m1: "\<forall>c \<in> set new1. \<exists>a b. c = PullStr t a b"
    and c1: "case snd ?W of
          Inl e \<Rightarrow> e = IndexError \<or> e = FetchError
        | Inr h \<Rightarrow> map fst h = map fst hdata
                    \<and> has_rows h t (int 0 + int (length weeks))
                    \<and> (\<forall>s. s \<noteq> t \<longrightarrow> map_of h s = map_of hdata s)"
    by blast
  have gl: "gapless df weeks \<Longrightarrow> new1 = [] \<and> (\<forall>h. snd ?W = Inr h \<longrightarrow> map_of h t = Some (cached_rows df 0 weeks))"
  proof -
    assume g: "gapless df weeks"
    have e: "map_of hdata t = Some []" using hr by (simp add: has_rows_zero)
    from cached_weeks_gapless[OF e _ g, of 0 "DataReader_str w" calls] obtain h where
      "?W = (calls, Inr h)" and "map_of h t = Some ([] @ cached_rows df 0 weeks)" by auto
    then show ?thesis using n1 by simp
  qed
  have m1': "\<forall>c \<in> set new1. \<exists>s a b df. c = PullStr s a b \<and> s \<in> set (t # ts)
                   \<and> map_of (cached_data w) s = Some df \<and> \<not> gapless df weeks"
  proof
    fix c assume c: "c \<in> set new1"
    then have "\<not> gapless df weeks" using gl by auto
    moreover obtain a b where "c = PullStr t a b" using m1 c by blast
    ultimately show "\<exists>s a b df. c = PullStr s a b \<and> s \<in> set (t # ts)
                   \<and> map_of (cached_data w) s = Some df \<and> \<not> gapless df weeks"
      using df by auto
  qed
  show ?case
  proof (cases "snd ?W")
    case (Inl e)
    then have "?R = (fst ?W, Inl e)" using df by (cases ?W) simp
    then show ?thesis using n1 m1' c1 Inl by auto
  next
    case (Inr h1)
    have R: "?R = cached_tickers w weeks ts (fst ?W, h1)" using df Inr by (cases ?W) simp
    have k: "map fst h1 = map fst hdata" and r: "has_rows h1 t (int (length weeks))"
      and o: "\<forall>s. s \<noteq> t \<longrightarrow> map_of h1 s = map_of hdata s"
      using c1 Inr by simp_all
    have pre2: "\<forall>u \<in> set ts. has_rows h1 u 0"
    proof
      fix u assume u: "u \<in> set ts"
      then have "u \<noteq> t" using tn by auto
      then show "has_rows h1 u 0" using has_rows_other[OF o] Cons.prems(2) u by simp
    qed
    have pre3: "\<forall>u \<in> set ts. map_of (cached_data w) u \<noteq> None" using Cons.prems(3) by simp
    let ?T = "cached_tickers w weeks ts (fst ?W, h1)"
    from Cons.IH[OF d pre2 pre3, of "fst ?W"] obtain new2 where
      n2: "fst ?T = fst ?W @ new2"
      and m2: "\<forall>c \<in> set new2. \<exists>s a b df. c = PullStr s a b \<and> s \<in> set ts
                   \<and> map_of (cached_data w) s = Some df \<and> \<not> gapless df weeks"
      and c2: "case snd ?T of
          Inl e \<Rightarrow> e = IndexError \<or> e = FetchError
        | Inr h \<Rightarrow> map fst h = map fst h1
                    \<and> (\<forall>t \<in> set ts. has_rows h t (int (length weeks)))
                    \<and> (\<forall>t \<in> set ts. \<forall>df. map_of (cached_data w) t = Some df \<and> gapless df weeks
                          \<longrightarrow> map_of h t = Some (cached_rows df 0 weeks))
                    \<and> (\<forall>s. s \<notin> set ts \<longrightarrow> map_of h s = map_of h1 s)"
      by blast
    have calls_ok: "\<exists>new. fst ?R = calls @ new
            \<and> (\<forall>c \<in> set new. \<exists>s a b df. c = PullStr s a b \<and> s \<in> set (t # ts)
                   \<and> map_of (cached_data w) s = Some df \<and> \<not> gapless df weeks)"
    proof -
      have "fst ?R = calls @ (new1 @ new2)" using R n1 n2 by simp
      moreover have "\<forall>c \<in> set (new1 @ new2). \<exists>s a b df. c = PullStr s a b \<and> s \<in> set (t # ts)
                   \<and> map_of (cached_data w) s = Some df \<and> \<not> gapless df weeks"
        using m1' m2 by fastforce
      ultimately show ?thesis by blast
    qed
    show ?thesis
    proof (cases "snd ?T")
      case (Inl e)
      then show ?thesis using calls_ok c2 R by simp
    next
      case (Inr h)
      have a1: "map fst h = map fst h1" and a2: "\<forall>t \<in> set ts. has_rows h t (int (length weeks))"
        and a3: "\<forall>t \<in> set ts. \<forall>df. map_of (cached_data w) t = Some df \<and> gapless df weeks
                          \<longrightarrow> map_of h t = Some (cached_rows df 0 weeks)"
        and a4: "\<forall>s. s \<notin> set ts \<longrightarrow> map_of h s = map_of h1 s"
        using c2 Inr by simp_all
      have ht: "map_of h t = map_of h1 t" using a4 tn by simp
      have b2: "\<forall>u \<in> set (t # ts). has_rows h u (int (length weeks))"
        using a2 r ht by (simp add: has_rows_def)
      have b3: "\<forall>u \<in> set (t # ts). \<forall>df. map_of (cached_data w) u = Some df \<and> gapless df weeks
                          \<longrightarrow> map_of h u = Some (cached_rows df 0 weeks)"
      proof (intro ballI allI impI)
        fix u df' assume u: "u \<in> set (t # ts)"
          and h: "map_of (cached_data w) u = Some df' \<and> gapless df' weeks"
        show "map_of h u = Some (cached_rows df' 0 weeks)"
        proof (cases "u = t")
          case True
          then have "df' = df" and "gapless df weeks" using h df by simp_all
          then show ?thesis using gl \<open>snd ?W = Inr h1\<close> ht True by simp
        next
          case False
          then show ?thesis using a3 u h by simp
        qed
      qed
      have b4: "\<forall>s. s \<notin> set (t # ts) \<longrightarrow> map_of h s = map_of hdata s"
        using a4 o by simp
      show ?thesis using calls_ok Inr R a1 k b2 b3 b4 by simp
    qed
  qed
qed

lemma length_week_dates: "length (week_dates today) = 52"
  by (simp add: week_dates_def)

lemma has_rows_nonempty: "has_rows h t 52 \<Longrightarrow> map_of h t \<noteq> Some []"
  by (auto simp: has_rows_def upto.simps)

lemma pull_missing_inv:
  assumes "distinct ms" and "\<forall>t \<in> set ms. has_rows hdata t 0"
  shows "(fst (pull_missing w ms hdata) =
            (if ms = [] then [] else [PullList ms (start_date (now w)) (end_date (now w))]))
    \<and> (case snd (pull_missing w ms hdata) of
          Inl e \<Rightarrow> e = IndexError \<or> e = FetchError
        | Inr h \<Rightarrow> map fst h = map fst hdata
                    \<and> (\<forall>t \<in> set ms. has_rows h t 52)
                    \<and> (\<forall>s. s \<notin> set ms \<longrightarrow> map_of h s = map_of hdata s))"
proof (cases "ms = []")
  case True
  then show ?thesis by (simp add: pull_missing_def)
next
  case False
  show ?thesis
  proof (cases "DataReader_list w ms (start_date (now w)) (end_date (now w))")
    case None
    then show ?thesis using False by (simp add: pull_missing_def Let_def)
  next
    case (Some dp)
    have pre: "\<forall>t \<in> set ms. has_rows hdata t (int 0)" using assms(2) by simp
    have M: "case missing_weeks dp ms 0 (week_dates (now w)) hdata of
           Inl e \<Rightarrow> e = IndexError
         | Inr h \<Rightarrow> map fst h = map fst hdata
                    \<and> (\<forall>t \<in> set ms. has_rows h t (int 0 + int (length (week_dates (now w)))))
                    \<and> (\<forall>s. s \<notin> set ms \<longrightarrow> map_of h s = map_of hdata s)"
      by (rule missing_weeks_inv[OF assms(1) pre])
    have P: "pull_missing w ms hdata =
       ([PullList ms (start_date (now w)) (end_date (now w))],
        missing_weeks dp ms 0 (week_dates (now w)) hdata)"
      using False Some by (simp add: pull_missing_def Let_def)
    show ?thesis using M False unfolding P
      by (auto simp: length_week_dates split: sum.splits)
  qed
qed

lemma map_of_init: "map_of (map (\<lambda>ticker. (ticker, [])) ss) t = (if t \<in> set ss then Some [] else None)"
  by (induction ss) auto

lemma empties_set:
  assumes "distinct (map fst h)"
  shows "set (map fst (filter (\<lambda>(t, d). d = []) h)) = {t. map_of h t = Some []}"
    and "distinct (map fst (filter (\<lambda>(t, d). d = []) h))"
proof -
  show "set (map fst (filter (\<lambda>(t, d). d = []) h)) = {t. map_of h t = Some []}"
    using assms by (auto simp: map_of_eq_Some_iff[OF assms] intro: rev_image_eqI)
  show "distinct (map fst (filter (\<lambda>(t, d). d = []) h))"
    using assms by (simp add: distinct_map_filter)
qed

text \<open>What a call of \<^verbatim>\<open>get_historical_data\<close> does, whatever it is given.\<close>

lemma get_historical_data_inv:
  fixes w arg g
  defines "symbols \<equiv> remdups (case arg of None \<Rightarrow> tickers g | Some s \<Rightarrow> s)"
  defines "weeks \<equiv> week_dates (now w)"
  defines "R \<equiv> get_historical_data w arg g"
  shows "(\<forall>c \<in> set (fst R).
            (\<exists>ts a b. c = PullList ts a b \<and> ts \<noteq> []
                \<and> set ts = {t \<in> set symbols. map_of (cached_data w) t = None})
          \<or> (\<exists>s a b df. c = PullStr s a b \<and> s \<in> set symbols
                \<and> map_of (cached_data w) s = Some df \<and> \<not> gapless df weeks))
    \<and> (case snd R of
          Inl e \<Rightarrow> e = IndexError \<or> e = FetchError
        | Inr (h, g') \<Rightarrow> map fst h = symbols
                    \<and> g' = g\<lparr>historical_data := h\<rparr>
                    \<and> (\<forall>t \<in> set symbols. has_rows h t 52)
                    \<and> (\<forall>t \<in> set symbols. \<forall>df. map_of (cached_data w) t = Some df \<and> gapless df weeks
                          \<longrightarrow> map_of h t = Some (cached_rows df 0 weeks)))"
proof -
  let ?hd0 = "map (\<lambda>ticker. (ticker, [] :: wbar frame)) symbols"
  let ?ms = "filter (\<lambda>t. map_of (cached_data w) t = None) symbols"
  let ?P = "pull_missing w ?ms ?hd0"
  have ds: "distinct symbols" by (simp add: symbols_def)
  have dm: "distinct ?ms" using ds by simp
  have k0: "map fst ?hd0 = symbols" by (simp add: comp_def)
  have z0: "\<forall>t \<in> set symbols. has_rows ?hd0 t 0"
    by (simp add: has_rows_zero map_of_init)
  then have zm: "\<forall>t \<in> set ?ms. has_rows ?hd0 t 0" by simp
  note PI = pull_missing_inv[OF dm zm, of w]
  have pc: "fst ?P = (if ?ms = [] then [] else [PullList ?ms (start_date (now w)) (end_date (now w))])"
    by (rule PI[THEN conjunct1])
  have pr: "case snd ?P of
          Inl e \<Rightarrow> e = IndexError \<or> e = FetchError
        | Inr h \<Rightarrow> map fst h = map fst ?hd0
                    \<and> (\<forall>t \<in> set ?ms. has_rows h t 52)
                    \<and> (\<forall>s. s \<notin> set ?ms \<longrightarrow> map_of h s = map_of ?hd0 s)"
    by (rule PI[THEN conjunct2])
  have pcalls: "\<forall>c \<in> set (fst ?P). \<exists>ts a b. c = PullList ts a b \<and> ts \<noteq> []
                \<and> set ts = {t \<in> set symbols. map_of (cached_data w) t = None}"
    unfolding pc by auto
  have Rdef: "R = (case ?P of
           (calls, Inl e) \<Rightarrow> (calls, Inl e)
         | (calls, Inr hd1) \<Rightarrow>
             (case cached_tickers w weeks
                     (map fst (filter (\<lambda>(t, d). d = []) hd1)) (calls, hd1) of
                (calls', Inl e) \<Rightarrow> (calls', Inl e)
              | (calls', Inr hd2) \<Rightarrow> (calls', Inr (hd2, g\<lparr>historical_data := hd2\<rparr>))))"
    unfolding R_def get_historical_data_def symbols_def weeks_def Let_def by simp
  show ?thesis
  proof (cases "snd ?P")
    case (Inl e)
    then have "R = (fst ?P, Inl e)" unfolding Rdef by (cases ?P) simp
    then show ?thesis using pcalls pr Inl by auto
  next
    case (Inr h1)
    let ?es = "map fst (filter (\<lambda>(t, d). d = []) h1)"
    let ?T = "cached_tickers w weeks ?es (fst ?P, h1)"
    have k1: "map fst h1 = symbols" and r1: "\<forall>t \<in> set ?ms. has_rows h1 t 52"
      and o1: "\<forall>s. s \<notin> set ?ms \<longrightarrow> map_of h1 s = map_of ?hd0 s"
      using pr Inr k0 by simp_all
    have d1: "distinct (map fst h1)" using k1 ds by simp
    have es: "set ?es = {t. map_of h1 t = Some []}" and de: "distinct ?es"
      using empties_set[OF d1] by blast+
    have es2: "set ?es = {t \<in> set symbols. map_of (cached_data w) t \<noteq> None}"
    proof (rule set_eqI)
      fix t
      show "(t \<in> set ?es) = (t \<in> {t \<in> set symbols. map_of (cached_data w) t \<noteq> None})"
      proof (cases "t \<in> set ?ms")
        case True
        then have "map_of h1 t \<noteq> Some []" using r1 has_rows_nonempty by blast
        then show ?thesis using True es by auto
      next
        case False
        then have "map_of h1 t = map_of ?hd0 t" using o1 by simp
        then show ?thesis using False es by (auto simp: map_of_init)
      qed
    qed
    have pe1: "\<forall>t \<in> set ?es. has_rows h1 t 0" using es by (simp add: has_rows_zero)
    have pe2: "\<forall>t \<in> set ?es. map_of (cached_data w) t \<noteq> None" using es2 by simp
    from cached_tickers_inv[OF de pe1 pe2, of weeks "fst ?P"] obtain new where
      n: "fst ?T = fst ?P @ new"
      and m: "\<forall>c \<in> set new. \<exists>s a b df. c = PullStr s a b \<and> s \<in> set ?es
                   \<and> map_of (cached_data w) s = Some df \<and> \<not> gapless df weeks"
      and c: "case snd ?T of
          Inl e \<Rightarrow> e = IndexError \<or> e = FetchError
        | Inr h \<Rightarrow> map fst h = map fst h1
                    \<and> (\<forall>t \<in> set ?es. has_rows h t (int (length weeks)))
                    \<and> (\<forall>t \<in> set ?es. \<forall>df. map_of (cached_data w) t = Some df \<and> gapless df weeks
                          \<longrightarrow> map_of h t = Some (cached_rows df 0 weeks))
                    \<and> (\<forall>s. s \<notin> set ?es \<longrightarrow> map_of h s = map_of h1 s)"
      by blast
    have RT: "R = (case ?T of
                (calls', Inl e) \<Rightarrow> (calls', Inl e)
              | (calls', Inr hd2) \<Rightarrow> (calls', Inr (hd2, g\<lparr>historical_data := hd2\<rparr>)))"
      unfolding Rdef using Inr by (cases ?P) simp
    have fstR: "fst R = fst ?T" unfolding RT by (cases ?T) (auto split: sum.splits)
    have calls_ok: "\<forall>c \<in> set (fst R).
            (\<exists>ts a b. c = PullList ts a b \<and> ts \<noteq> []
                \<and> set ts = {t \<in> set symbols. map_of (cached_data w) t = None})
          \<or> (\<exists>s a b df. c = PullStr s a b \<and> s \<in> set symbols
                \<and> map_of (cached_data w) s = Some df \<and> \<not> gapless df weeks)"
    proof
      fix c assume "c \<in> set (fst R)"
      then have "c \<in> set (fst ?P) \<or> c \<in> set new" using fstR n by auto
      then show "(\<exists>ts a b. c = PullList ts a b \<and> ts \<noteq> []
                \<and> set ts = {t \<in> set symbols. map_of (cached_data w) t = None})
          \<or> (\<exists>s a b df. c = PullStr s a b \<and> s \<in> set symbols
                \<and> map_of (cached_data w) s = Some df \<and> \<not> gapless df weeks)"
      proof
        assume "c \<in> set (fst ?P)"
        then show ?thesis using pcalls by blast
      next
        assume "c \<in> set new"
        then obtain s a b df where "c = PullStr s a b" "s \<in> set ?es"
          "map_of (cached_data w) s = Some df" "\<not> gapless df weeks" using m by blast
        moreover have "s \<in> set symbols" using \<open>s \<in> set ?es\<close> es2 by auto
        ultimately show ?thesis by blast
      qed
    qed
    show ?thesis
    proof (cases "snd ?T")
      case (Inl e)
      then have "snd R = Inl e" unfolding RT by (cases ?T) simp
      then show ?thesis using calls_ok c Inl by simp
    next
      case (Inr h)
      then have sR: "snd R = Inr (h, g\<lparr>historical_data := h\<rparr>)" unfolding RT by (cases ?T) simp
      have a1: "map fst h = map fst h1"
        and a2: "\<forall>t \<in> set ?es. has_rows h t 52"
        and a3: "\<forall>t \<in> set ?es. \<forall>df. map_of (cached_data w) t = Some df \<and> gapless df weeks
                          \<longrightarrow> map_of h t = Some (cached_rows df 0 weeks)"
        and a4: "\<forall>s. s \<notin> set ?es \<longrightarrow> map_of h s = map_of h1 s"
        using c Inr by (simp_all add: weeks_def length_week_dates)
      have b2: "\<forall>t \<in> set symbols. has_rows h t 52"
      proof
        fix t assume t: "t \<in> set symbols"
        show "has_rows h t 52"
        proof (cases "t \<in> set ?es")
          case True
          then show ?thesis using a2 by blast
        next
          case False
          then have "t \<in> set ?ms" using es2 t by auto
          moreover have "map_of h t = map_of h1 t" using a4 False by blast
          ultimately show ?thesis using r1 by (simp add: has_rows_def)
        qed
      qed
      have b3: "\<forall>t \<in> set symbols. \<forall>df. map_of (cached_data w) t = Some df \<and> gapless df weeks
                          \<longrightarrow> map_of h t = Some (cached_rows df 0 weeks)"
      proof (intro ballI allI impI)
        fix t df assume t: "t \<in> set symbols"
          and h: "map_of (cached_data w) t = Some df \<and> gapless df weeks"
        then have "t \<in> set ?es" using es2 by auto
        then show "map_of h t = Some (cached_rows df 0 weeks)" using a3 h by blast
      qed
      show ?thesis using calls_ok sR a1 k1 b2 b3 by simp
    qed
  qed
qed

lemma cached_tickers_gapless:
  assumes "distinct ts"
    and "\<forall>t \<in> set ts. has_rows hdata t 0"
    and "\<forall>t \<in> set ts. \<exists>df. map_of (cached_data w) t = Some df \<and> gapless df weeks"
  shows "\<exists>h. cached_tickers w weeks ts (calls, hdata) = (calls, Inr h)"
  using assms
proof (induction ts arbitrary: hdata)
  case Nil
  then show ?case by simp
next
  case (Cons t ts)
  obtain df where df: "map_of (cached_data w) t = Some df" and g: "gapless df weeks"
    using Cons.prems(3) by auto
  have e: "map_of hdata t = Some []" using Cons.prems(2) by (simp add: has_rows_zero)
  from cached_weeks_gapless[OF e _ g, of 0 "DataReader_str w" calls] obtain h1 where
    W: "cached_weeks (DataReader_str w) t df 0 weeks (calls, hdata) = (calls, Inr h1)"
    and o: "\<forall>s. s \<noteq> t \<longrightarrow> map_of h1 s = map_of hdata s"
    by auto
  have tn: "t \<notin> set ts" and d: "distinct ts" using Cons.prems(1) by simp_all
  have pre2: "\<forall>u \<in> set ts. has_rows h1 u 0"
  proof
    fix u assume u: "u \<in> set ts"
    then have "u \<noteq> t" using tn by auto
    then show "has_rows h1 u 0" using has_rows_other[OF o] Cons.prems(2) u by simp
  qed
  have pre3: "\<forall>t \<in> set ts. \<exists>df. map_of (cached_data w) t = Some df \<and> gapless df weeks"
    using Cons.prems(3) by simp
  from Cons.IH[OF d pre2 pre3] obtain h where
    "cached_tickers w weeks ts (calls, h1) = (calls, Inr h)" by blast
  then show ?case using df W by simp
qed

lemma all_gapless_returns:
  fixes w arg g
  defines "symbols \<equiv> remdups (case arg of None \<Rightarrow> tickers g | Some s \<Rightarrow> s)"
  assumes "\<forall>s \<in> set symbols. \<exists>d. map_of (cached_data w) s = Some d \<and> gapless d (week_dates (now w))"
  shows "\<exists>h. get_historical_data w arg g = ([], Inr (h, g\<lparr>historical_data := h\<rparr>))"
proof -
  let ?hd0 = "map (\<lambda>ticker. (ticker, [] :: wbar frame)) symbols"
  let ?ms = "filter (\<lambda>t. map_of (cached_data w) t = None) symbols"
  have ms: "?ms = []" using assms(2) by (auto simp: filter_empty_conv)
  have P: "pull_missing w ?ms ?hd0 = ([], Inr ?hd0)" unfolding ms by (simp add: pull_missing_def)
  let ?es = "map fst (filter (\<lambda>(t, d). d = []) ?hd0)"
  have es: "?es = symbols" by (induction symbols) auto
  have ds: "distinct symbols" by (simp add: symbols_def)
  have z0: "\<forall>t \<in> set symbols. has_rows ?hd0 t 0"
    by (simp add: has_rows_zero map_of_init)
  from cached_tickers_gapless[OF ds z0 assms(2), of "[]"] obtain h where
    T: "cached_tickers w (week_dates (now w)) symbols ([], ?hd0) = ([], Inr h)" by blast
  have "get_historical_data w arg g = ([], Inr (h, g\<lparr>historical_data := h\<rparr>))"
    unfolding get_historical_data_def Let_def symbols_def[symmetric] P
    using T es by simp
  then show ?thesis by blast
qed

section \<open>Helper facts: example runs and the weekly row\<close>


lemma stale_cache_run:
  "fst (get_historical_data (market_world 371 stale_cache closed_market) (Some [''ABC'']) no_globals)
     = [PullStr ''ABC'' 7 11]
   \<and> raised (get_historical_data (market_world 371 stale_cache closed_market) (Some [''ABC'']) no_globals)
     = Some IndexError"
  by code_simp

lemma full_cache_gapless: "gapless (the (map_of full_cache ''ABC'')) (week_dates 371)"
  by code_simp

lemma full_cache_lookup:
  "map_of (cached_data (market_world 371 full_cache closed_market)) ''ABC''
     = Some (the (map_of full_cache ''ABC''))"
  by (simp add: market_world_def full_cache_def)

lemma full_cache_last_row:
  "map_of (cached_rows (the (map_of full_cache ''ABC'')) 0 (week_dates 371)) 52
     = Some (flat_bar 364 (Num 151))"
  by code_simp

lemma raised_None: "raised r = None \<Longrightarrow> \<exists>h g'. snd r = Inr (h, g')"
  by (auto simp: raised_def split: sum.splits)

lemma map_filter_none: "\<forall>d \<in> set xs. f d = None \<Longrightarrow> List.map_filter f xs = []"
  by (induction xs) (auto simp: List.map_filter_simps)

lemma fl_le_refl: "x \<noteq> NaN \<Longrightarrow> fl_le x x"
  by (simp add: fl_le_def)

lemma fl_le_trans: "fl_le x y \<Longrightarrow> fl_le y z \<Longrightarrow> fl_le x z"
  by (cases x; cases y; cases z) (auto simp: fl_le_def)

lemma fl_le_step_max:
  "a \<noteq> NaN \<Longrightarrow> x \<noteq> NaN \<Longrightarrow>
   fl_le a (if fl_less a x then x else a) \<and> fl_le x (if fl_less a x then x else a)"
  by (cases a; cases x) (auto simp: fl_le_def)

lemma fl_le_step_min:
  "a \<noteq> NaN \<Longrightarrow> x \<noteq> NaN \<Longrightarrow>
   fl_le (if fl_less x a then x else a) a \<and> fl_le (if fl_less x a then x else a) x"
  by (cases a; cases x) (auto simp: fl_le_def)

lemma py_max_is_max:
  "\<forall>x \<in> set (a # xs). x \<noteq> NaN \<Longrightarrow>
   py_max a xs \<in> set (a # xs) \<and> (\<forall>x \<in> set (a # xs). fl_le x (py_max a xs))"
proof (induction xs arbitrary: a)
  case Nil
  then show ?case by (simp add: py_max_def fl_le_refl)
next
  case (Cons x xs)
  let ?b = "if fl_less a x then x else a"
  have e: "py_max a (x # xs) = py_max ?b xs" by (simp add: py_max_def)
  have nb: "\<forall>y \<in> set (?b # xs). y \<noteq> NaN" using Cons.prems by auto
  from Cons.IH[OF nb] have m: "py_max ?b xs \<in> set (?b # xs)"
    and u: "\<forall>y \<in> set (?b # xs). fl_le y (py_max ?b xs)" by blast+
  have s: "fl_le a ?b \<and> fl_le x ?b" using Cons.prems by (intro fl_le_step_max) auto
  have b: "fl_le ?b (py_max ?b xs)" using u by simp
  have "fl_le a (py_max ?b xs)" and "fl_le x (py_max ?b xs)"
    using s b fl_le_trans by blast+
  moreover have "py_max ?b xs \<in> set (a # x # xs)" using m by auto
  ultimately show ?case unfolding e using u by auto
qed

lemma py_min_is_min:
  "\<forall>x \<in> set (a # xs). x \<noteq> NaN \<Longrightarrow>
   py_min a xs \<in> set (a # xs) \<and> (\<forall>x \<in> set (a # xs). fl_le (py_min a xs) x)"
proof (induction xs arbitrary: a)
  case Nil
  then show ?case by (simp add: py_min_def fl_le_refl)
next
  case (Cons x xs)
  let ?b = "if fl_less x a then x else a"
  have e: "py_min a (x # xs) = py_min ?b xs" by (simp add: py_min_def)
  have nb: "\<forall>y \<in> set (?b # xs). y \<noteq> NaN" using Cons.prems by auto
  from Cons.IH[OF nb] have m: "py_min ?b xs \<in> set (?b # xs)"
    and u: "\<forall>y \<in> set (?b # xs). fl_le (py_min ?b xs) y" by blast+
  have s: "fl_le ?b a \<and> fl_le ?b x" using Cons.prems by (intro fl_le_step_min) auto
  have b: "fl_le (py_min ?b xs) ?b" using u by simp
  have "fl_le (py_min ?b xs) a" and "fl_le (py_min ?b xs) x"
    using s b fl_le_trans by blast+
  moreover have "py_min ?b xs \<in> set (a # x # xs)" using m by auto
  ultimately show ?case unfolding e using u by auto
qed

text \<open>
  The row built from the days that a pull has, when there is at least one: positional
  open, close and volume, and the largest high and smallest low when none of them is NaN.
\<close>

lemma week_row_of_present_days:
  assumes "week \<noteq> []" and "ws \<noteq> []"
    and "\<forall>b \<in> set ws. col_high b \<noteq> NaN \<and> col_low b \<noteq> NaN"
  shows "\<exists>row. week_row week ws = Inr row
    \<and> col_weekof row = hd week
    \<and> col_open row = col_open (hd ws)
    \<and> col_close row = col_close (last ws)
    \<and> col_volume row = col_volume (last ws)
    \<and> col_high row \<in> col_high ` set ws \<and> (\<forall>b \<in> set ws. fl_le (col_high b) (col_high row))
    \<and> col_low row \<in> col_low ` set ws \<and> (\<forall>b \<in> set ws. fl_le (col_low row) (col_low b))"
proof -
  obtain monday days where w: "week = monday # days" using assms(1) by (cases week) auto
  obtain first rest where s: "ws = first # rest" using assms(2) by (cases ws) auto
  have hn: "\<forall>x \<in> set (col_high first # map col_high rest). x \<noteq> NaN"
    and ln: "\<forall>x \<in> set (col_low first # map col_low rest). x \<noteq> NaN"
    using assms(3) s by auto
  note H = py_max_is_max[OF hn] and L = py_min_is_min[OF ln]
  show ?thesis using H L unfolding week_row_def w s by auto
qed

lemma two_symbols_calls:
  "fst (get_historical_data (market_world 371 [] two_symbol_market) (Some [''A'', ''B'']) no_globals)
    = [PullList [''A'', ''B''] 7 368]"
  by code_simp

lemma two_symbols_batched_B1:
  "row_at (returned_series (get_historical_data (market_world 371 [] two_symbol_market)
       (Some [''A'', ''B'']) no_globals) ''B'') 1
   = Some \<lparr>col_open = NaN, col_high = NaN, col_low = NaN, col_close = Num 12,
       col_volume = Num 1100, col_weekof = 7\<rparr>"
  by code_simp

lemma two_symbols_per_window_B1:
  "row_at (per_window_series (fetch_str two_symbol_market) ''B'' (week_dates 371)) 1
   = Some \<lparr>col_open = Num 8, col_high = Num 13, col_low = Num 6, col_close = Num 12,
       col_volume = Num 1100, col_weekof = 7\<rparr>"
  by code_simp

lemma first_week_371: "week_dates 371 ! 0 = [7, 8, 9, 10, 11]"
  by code_simp

section \<open>What a load returns\<close>




section \<open>A week without days\<close>

text \<open>
  Claim C7 says that aggregating a week for which the pull has no day fails with
  MissingWeekData. The source has no such error: for a cached symbol whose only cached
  row is of another week, on a market without bars, the pull of the first week is
  empty and \<^verbatim>\<open>week_series[0]\<close> raises IndexError.
\<close>

theorem empty_week_raises_IndexError:
  "fst (get_historical_data (market_world 371 stale_cache closed_market) (Some [''ABC'']) no_globals)
     = [PullStr ''ABC'' 7 11]
   \<and> raised (get_historical_data (market_world 371 stale_cache closed_market) (Some [''ABC'']) no_globals)
     = Some IndexError
   \<and> IndexError \<noteq> MissingWeekData"
  using stale_cache_run by simp

text \<open>
  Claim C7 as amended. When the pull has no row for any of the dates of a week, the
  aggregation of that week produces no bar and raises Python's IndexError: in the row
  itself, in the branch of the uncached tickers, and in the branch of the cached
  tickers when the cache has no row of that week and the pull of the week succeeds.
\<close>

theorem empty_week_IndexError:
  assumes "\<forall>d \<in> set week. data_pull d = None"
    and "\<forall>d \<in> set week. table d = None"
    and "filter (\<lambda>r. col_weekof r \<in> set week) df = []"
    and "reader ticker (hd week) (last week) = Some data_pull"
  shows "week_row week (List.map_filter data_pull week) = Inl IndexError
    \<and> fill_missing i week (List.map_filter table week) (ticker # ts) hdata = Inl IndexError
    \<and> missing_weeks table (ticker # ts) i (week # weeks) hdata = Inl IndexError
    \<and> snd (cached_weeks reader ticker df i (week # weeks) (calls, hdata)) = Inl IndexError"
proof -
  have e1: "List.map_filter data_pull week = []" using assms(1) by (rule map_filter_none)
  have e2: "List.map_filter table week = []" using assms(2) by (rule map_filter_none)
  have 1: "week_row week (List.map_filter data_pull week) = Inl IndexError"
    unfolding e1 by (rule week_row_empty)
  have 2: "fill_missing i week (List.map_filter table week) (ticker # ts) hdata = Inl IndexError"
    unfolding e2 by (simp add: week_row_empty)
  have 3: "missing_weeks table (ticker # ts) i (week # weeks) hdata = Inl IndexError"
    using 2 by simp
  have 4: "snd (cached_weeks reader ticker df i (week # weeks) (calls, hdata)) = Inl IndexError"
  proof (cases week)
    case Nil
    then show ?thesis using assms(3) by simp
  next
    case (Cons monday days)
    then have "reader ticker monday (last week) = Some data_pull" using assms(4) by simp
    then show ?thesis using assms(3) Cons 1 by (simp add: Let_def)
  qed
  show ?thesis using 1 2 3 4 by simp
qed

theorem empty_week_IndexError_witness:
  "week_row [7, 8, 9, 10, 11] (List.map_filter (\<lambda>d. None) [7, 8, 9, 10, 11]) = Inl IndexError
   \<and> missing_weeks (\<lambda>d. None) [''ABC''] 0 [[7, 8, 9, 10, 11]] [(''ABC'', [])] = Inl IndexError
   \<and> snd (cached_weeks (fetch_str closed_market) ''ABC'' [flat_bar 0 (Num 50)] 0 [[7, 8, 9, 10, 11]]
            ([], [(''ABC'', [])])) = Inl IndexError"
proof -
  have a: "\<forall>d \<in> set [7, 8, 9, 10, 11 :: int]. (\<lambda>d. None :: bar option) d = None" by simp
  have b: "\<forall>d \<in> set [7, 8, 9, 10, 11 :: int]. (\<lambda>d. None :: (symbol \<Rightarrow> bar) option) d = None" by simp
  have c: "filter (\<lambda>r. col_weekof r \<in> set [7, 8, 9, 10, 11]) [flat_bar 0 (Num 50)] = []"
    by (simp add: flat_bar_def)
  have d: "fetch_str closed_market ''ABC'' (hd [7, 8, 9, 10, 11]) (last [7, 8, 9, 10, 11])
      = Some (\<lambda>d. None)"
    by (simp add: fetch_str_def closed_market_def)
  from empty_week_IndexError[where week = "[7, 8, 9, 10, 11]" and data_pull = "\<lambda>d. None"
      and table = "\<lambda>d. None" and df = "[flat_bar 0 (Num 50)]"
      and reader = "fetch_str closed_market" and ticker = "''ABC''" and i = 0 and ts = "[]"
      and hdata = "[(''ABC'', [])]" and weeks = "[]" and calls = "[]", OF a b c d]
  show ?thesis by simp
qed

section \<open>A symbol that is cached without gaps\<close>

text \<open>
  Claim C8. For a requested symbol that the cache has, with a cached row whose
  \<^verbatim>\<open>weekof\<close> is one of the five dates of each of the 52 weeks, no call of the data
  reader names the symbol, whether the load returns or raises; when the load returns,
  the frame of the symbol is, at each label \<open>i + 1\<close>, the first cached row of week
  \<open>i\<close>, unchanged. When every requested symbol is so, the load makes no call at all
  and returns.
\<close>

theorem gapless_cached_symbol_no_fetch:
  assumes "t \<in> set (case arg of None \<Rightarrow> tickers g | Some s \<Rightarrow> s)"
    and "map_of (cached_data w) t = Some df"
    and "gapless df (week_dates (now w))"
  shows "(\<forall>c \<in> set (fst (get_historical_data w arg g)). \<not> names_symbol t c)
    \<and> (\<forall>h g'. snd (get_historical_data w arg g) = Inr (h, g')
          \<longrightarrow> map_of h t = Some (cached_rows df 0 (week_dates (now w))))
    \<and> ((\<forall>s \<in> set (case arg of None \<Rightarrow> tickers g | Some s \<Rightarrow> s).
            \<exists>d. map_of (cached_data w) s = Some d \<and> gapless d (week_dates (now w)))
          \<longrightarrow> (\<exists>h g'. get_historical_data w arg g = ([], Inr (h, g'))))"
proof -
  let ?symbols = "remdups (case arg of None \<Rightarrow> tickers g | Some s \<Rightarrow> s)"
  let ?R = "get_historical_data w arg g"
  note I = get_historical_data_inv[of w arg g]
  have ts: "t \<in> set ?symbols" using assms(1) by simp
  have 1: "\<forall>c \<in> set (fst ?R). \<not> names_symbol t c"
  proof
    fix c assume c: "c \<in> set (fst ?R)"
    from I[THEN conjunct1, rule_format, OF c]
    show "\<not> names_symbol t c"
    proof
      assume "\<exists>ts a b. c = PullList ts a b \<and> ts \<noteq> []
                \<and> set ts = {t \<in> set ?symbols. map_of (cached_data w) t = None}"
      then show ?thesis using assms(2) by auto
    next
      assume "\<exists>s a b df. c = PullStr s a b \<and> s \<in> set ?symbols
                \<and> map_of (cached_data w) s = Some df \<and> \<not> gapless df (week_dates (now w))"
      then show ?thesis using assms(2,3) by auto
    qed
  qed
  have 2: "\<forall>h g'. snd ?R = Inr (h, g')
          \<longrightarrow> map_of h t = Some (cached_rows df 0 (week_dates (now w)))"
  proof (intro allI impI)
    fix h g' assume r: "snd ?R = Inr (h, g')"
    have "case snd ?R of
          Inl e \<Rightarrow> e = IndexError \<or> e = FetchError
        | Inr (h, g') \<Rightarrow> map fst h = ?symbols
                    \<and> g' = g\<lparr>historical_data := h\<rparr>
                    \<and> (\<forall>t \<in> set ?symbols. has_rows h t 52)
                    \<and> (\<forall>t \<in> set ?symbols. \<forall>df. map_of (cached_data w) t = Some df
                            \<and> gapless df (week_dates (now w))
                          \<longrightarrow> map_of h t = Some (cached_rows df 0 (week_dates (now w))))"
      by (rule I[THEN conjunct2])
    then have
      "\<forall>t \<in> set ?symbols. \<forall>df. map_of (cached_data w) t = Some df \<and> gapless df (week_dates (now w))
                          \<longrightarrow> map_of h t = Some (cached_rows df 0 (week_dates (now w)))"
      unfolding r by (simp only: sum.case prod.case) blast
    then show "map_of h t = Some (cached_rows df 0 (week_dates (now w)))"
      using ts assms(2,3) by blast
  qed
  have 3: "(\<forall>s \<in> set (case arg of None \<Rightarrow> tickers g | Some s \<Rightarrow> s).
            \<exists>d. map_of (cached_data w) s = Some d \<and> gapless d (week_dates (now w)))
          \<longrightarrow> (\<exists>h g'. ?R = ([], Inr (h, g')))"
  proof
    assume "\<forall>s \<in> set (case arg of None \<Rightarrow> tickers g | Some s \<Rightarrow> s).
            \<exists>d. map_of (cached_data w) s = Some d \<and> gapless d (week_dates (now w))"
    then have "\<forall>s \<in> set ?symbols.
            \<exists>d. map_of (cached_data w) s = Some d \<and> gapless d (week_dates (now w))" by simp
    from all_gapless_returns[OF this] show "\<exists>h g'. ?R = ([], Inr (h, g'))" by blast
  qed
  show ?thesis using 1 2 3 by blast
qed

theorem gapless_cached_symbol_no_fetch_witness:
  "\<exists>h g'. get_historical_data (market_world 371 full_cache closed_market) (Some [''ABC'']) no_globals
       = ([], Inr (h, g'))
     \<and> map_of h ''ABC'' = Some (cached_rows (the (map_of full_cache ''ABC'')) 0 (week_dates 371))
     \<and> row_at (Inr (the (map_of h ''ABC''))) 52 = Some (flat_bar 364 (Num 151))"
proof -
  let ?w = "market_world 371 full_cache closed_market"
  let ?df = "the (map_of full_cache ''ABC'')"
  have a: "''ABC'' \<in> set (case Some [''ABC''] of None \<Rightarrow> tickers no_globals | Some s \<Rightarrow> s)" by simp
  have n: "now ?w = 371" by (simp add: market_world_def)
  have g: "gapless ?df (week_dates (now ?w))" using full_cache_gapless n by simp
  have all: "\<forall>s \<in> set (case Some [''ABC''] of None \<Rightarrow> tickers no_globals | Some s \<Rightarrow> s).
      \<exists>d. map_of (cached_data ?w) s = Some d \<and> gapless d (week_dates (now ?w))"
    using full_cache_lookup g by simp
  from gapless_cached_symbol_no_fetch[OF a full_cache_lookup g] all
  obtain h g' where r: "get_historical_data ?w (Some [''ABC'']) no_globals = ([], Inr (h, g'))"
    and v: "map_of h ''ABC'' = Some (cached_rows ?df 0 (week_dates (now ?w)))"
    by (metis snd_conv)
  have "row_at (Inr (the (map_of h ''ABC''))) 52 = Some (flat_bar 364 (Num 151))"
    using v n full_cache_last_row by (simp add: row_at_def)
  then show ?thesis using r v n by auto
qed

section \<open>One pull for several symbols\<close>

text \<open>
  Claim C4 says that the one pull for all uncached symbols gives each symbol the same
  52 bars as a pull per week would. The table of the one pull has one index of dates
  for all its symbols, and the branch takes the days of a week from that index. Symbols
  \<open>A\<close> and \<open>B\<close> are not cached; \<open>B\<close> has no bar on the Monday of the first week,
  \<open>A\<close> has one. In the table that Monday is a row whose cells for \<open>B\<close> are NaN, so the
  first bar of \<open>B\<close> gets a NaN open, high and low. The pull of that week for \<open>B\<close> alone
  starts on Tuesday and gives open 8, high 13, low 6.
\<close>

theorem batched_differs_from_per_window:
  "fst (get_historical_data (market_world 371 [] two_symbol_market) (Some [''A'', ''B'']) no_globals)
     = [PullList [''A'', ''B''] 7 368]
   \<and> row_at (returned_series (get_historical_data (market_world 371 [] two_symbol_market)
         (Some [''A'', ''B'']) no_globals) ''B'') 1
     = Some \<lparr>col_open = NaN, col_high = NaN, col_low = NaN, col_close = Num 12,
         col_volume = Num 1100, col_weekof = 7\<rparr>
   \<and> row_at (per_window_series (fetch_str two_symbol_market) ''B'' (week_dates 371)) 1
     = Some \<lparr>col_open = Num 8, col_high = Num 13, col_low = Num 6, col_close = Num 12,
         col_volume = Num 1100, col_weekof = 7\<rparr>
   \<and> returned_series (get_historical_data (market_world 371 [] two_symbol_market)
         (Some [''A'', ''B'']) no_globals) ''B''
     \<noteq> per_window_series (fetch_str two_symbol_market) ''B'' (week_dates 371)"
proof -
  let ?b = "returned_series (get_historical_data (market_world 371 [] two_symbol_market)
         (Some [''A'', ''B'']) no_globals) ''B''"
  let ?p = "per_window_series (fetch_str two_symbol_market) ''B'' (week_dates 371)"
  have "row_at ?b 1 \<noteq> row_at ?p 1"
    unfolding two_symbols_batched_B1 two_symbols_per_window_B1 by simp
  then have "?b \<noteq> ?p" by auto
  then show ?thesis using two_symbols_calls two_symbols_batched_B1 two_symbols_per_window_B1
    by simp
qed

text \<open>
  Claim C6 says that a week in which only some weekdays have a bar is aggregated over
  those days, open from the first of them. On the input above the days of the first
  week on which \<open>B\<close> has a bar are Tuesday to Friday, and the open of Tuesday is 8; the
  branch of the uncached tickers returns a first bar for \<open>B\<close> whose open, high and low
  are NaN, read from the Monday row of the shared table.
\<close>

theorem partial_week_in_shared_table:
  "week_dates 371 ! 0 = [7, 8, 9, 10, 11]
   \<and> filter (\<lambda>d. two_symbol_market ''B'' d \<noteq> None) [7, 8, 9, 10, 11] = [8, 9, 10, 11]
   \<and> two_symbol_market ''B'' 8 = Some (day_bar 8)
   \<and> col_open (day_bar 8) = Num 8
   \<and> map_option col_open (row_at (returned_series (get_historical_data
         (market_world 371 [] two_symbol_market) (Some [''A'', ''B'']) no_globals) ''B'') 1)
     = Some NaN
   \<and> map_option col_high (row_at (returned_series (get_historical_data
         (market_world 371 [] two_symbol_market) (Some [''A'', ''B'']) no_globals) ''B'') 1)
     = Some NaN
   \<and> map_option col_low (row_at (returned_series (get_historical_data
         (market_world 371 [] two_symbol_market) (Some [''A'', ''B'']) no_globals) ''B'') 1)
     = Some NaN"
  unfolding two_symbols_batched_B1 first_week_371
  by (simp add: two_symbol_market_def day_bar_def)

end
